theory Spec2Isabelle
  imports Main "HOL-Library.Multiset"
begin

section \<open>Buffer store: data model\<close>

text \<open>
  The buffer store of the editor (the zustand store \<open>useBufferStore\<close>), its
  collaborators (extension store, LSP client) and the properties of them that the
  specification states. Every action of the store is a function from the state before
  to the state after. Calls to external collaborators (session persistence, recent
  files, cursor memory, LSP client, the install-needed event) are recorded in the field
  \<open>emitted\<close> of the state, in the order in which the action initiates them.
\<close>

record token =
  tok_start :: int
  tok_end :: int
  token_type :: string
  class_name :: string

text \<open>
  The store never inspects a diff payload: it only tests whether one was supplied and
  stores it. The two alternatives of the source's union type carry an opaque payload.
\<close>

datatype diff_data = GitDiff string | MultiFileDiff string

record buffer =
  bid :: string
  path :: string
  name :: string
  content :: string
  isDirty :: bool
  isVirtual :: bool
  isPinned :: bool
  isImage :: bool
  isSQLite :: bool
  isDiff :: bool
  isActive :: bool
  language :: "string option"
  diffData :: "diff_data option"
  tokens :: "token list"

datatype close_type = CloseSingle | CloseOthers | CloseAll | CloseToRight

record pending_close =
  bufferId :: string
  pc_type :: close_type
  keepBufferId :: "string option"

record closed_buffer =
  cb_path :: string
  cb_name :: string
  cb_isPinned :: bool

datatype effect =
    AddRecentFile string string
  | SaveSession "buffer list" "string option"
  | RestorePosition string
  | LspStartForFile string string
  | LspStopForFile string
  | InstallNeeded string string string

record buffer_state =
  buffers :: "buffer list"
  activeBufferId :: "string option"
  maxOpenTabs :: int
  pendingClose :: "pending_close option"
  closedBuffersHistory :: "closed_buffer list"
  emitted :: "effect list"

text \<open>
  \<open>EDITOR_CONSTANTS\<close> is imported by the store from a file that is not part of the
  sources at hand; its two constants are parameters of the model. The history bound is
  the end of a \<open>slice(0, N)\<close> and is a natural number. The tab limit, which
  \<open>setMaxOpenTabs\<close> may set to any number, ranges over the integers, as do the indices
  given to \<open>reorderBuffers\<close>.
\<close>

record editor_constants =
  MAX_OPEN_TABS :: int
  MAX_CLOSED_BUFFERS_HISTORY :: nat

datatype error = TypeError | UndefinedElement

definition initial :: "editor_constants \<Rightarrow> buffer_state" where
  "initial K = \<lparr>buffers = [], activeBufferId = None, maxOpenTabs = MAX_OPEN_TABS K,
     pendingClose = None, closedBuffersHistory = [], emitted = []\<rparr>"

section \<open>Helpers of the host language\<close>

text \<open>\<open>Array.prototype.findIndex\<close>; the source's \<open>-1\<close> is \<open>None\<close>.\<close>

fun findIndex :: "('a \<Rightarrow> bool) \<Rightarrow> 'a list \<Rightarrow> nat option" where
  "findIndex P [] = None"
| "findIndex P (x # xs) =
     (if P x then Some 0 else (case findIndex P xs of None \<Rightarrow> None | Some i \<Rightarrow> Some (Suc i)))"

text \<open>
  The idiom \<open>const b = state.buffers.find(...); if (b) { b.f = ... }\<close> inside an
  immer recipe: the first element that satisfies the test is changed in place.
\<close>

definition updateFound :: "('a \<Rightarrow> bool) \<Rightarrow> ('a \<Rightarrow> 'a) \<Rightarrow> 'a list \<Rightarrow> 'a list" where
  "updateFound P f xs = (case findIndex P xs of None \<Rightarrow> xs | Some i \<Rightarrow> xs[i := f (xs ! i)])"

text \<open>Decimal rendering of a non-negative integer, as a template literal does.\<close>

fun show_nat :: "nat \<Rightarrow> string" where
  "show_nat n =
     (if n < 10 then [''0123456789'' ! n]
      else show_nat (n div 10) @ [''0123456789'' ! (n mod 10)])"

declare show_nat.simps [simp del]

definition isAlnum :: "char \<Rightarrow> bool" where
  "isAlnum c = (c \<in> set ''abcdefghijklmnopqrstuvwxyzABCDEFGHIJKLMNOPQRSTUVWXYZ0123456789'')"

text \<open>
  \<open>generateBufferId\<close>: every character outside \<open>[a-zA-Z0-9]\<close> becomes an underscore,
  and the clock value \<open>Date.now()\<close> (a parameter here) is appended.
\<close>

definition generateBufferId :: "string \<Rightarrow> nat \<Rightarrow> string" where
  "generateBufferId p t =
     ''buffer_'' @ map (\<lambda>c. if isAlnum c then c else CHR ''_'') p @ ''_'' @ show_nat t"

definition toLowerCase :: "char \<Rightarrow> char" where
  "toLowerCase c =
     (case map_of (zip ''ABCDEFGHIJKLMNOPQRSTUVWXYZ'' ''abcdefghijklmnopqrstuvwxyz'') c of
        Some l \<Rightarrow> l
      | None \<Rightarrow> c)"

text \<open>\<open>String.prototype.split\<close> on a one-character separator.\<close>

fun split_on :: "char \<Rightarrow> string \<Rightarrow> string list" where
  "split_on d [] = [[]]"
| "split_on d (c # cs) =
     (if c = d then [] # split_on d cs
      else (case split_on d cs of [] \<Rightarrow> [[c]] | s # ss \<Rightarrow> (c # s) # ss))"

text \<open>
  The relative index of \<open>Array.prototype.splice\<close>: a negative index counts from the
  end, and the result is clamped to the length.
\<close>

definition spliceIndex :: "int \<Rightarrow> nat \<Rightarrow> nat" where
  "spliceIndex i len = (if i < 0 then nat (max (int len + i) 0) else min (nat i) len)"

section \<open>Extension store\<close>

text \<open>
  Of the fields that \<open>ExtensionManifest\<close> and \<open>LanguageContribution\<close> declare,
  the records below keep the ones that \<open>getExtensionForFile\<close> and \<open>openBuffer\<close>
  read, and the aliases, which are optional as \<open>languages\<close> is. A JavaScript \<open>Map\<close>
  iterates in insertion order, so it is an association list.
\<close>

record language_contribution =
  lang_id :: string
  lang_extensions :: "string list"
  lang_aliases :: "string list option"

record extension_manifest =
  ext_id :: string
  ext_name :: string
  displayName :: string
  languages :: "language_contribution list option"

record available_extension =
  manifest :: extension_manifest
  isInstalled :: bool
  isInstalling :: bool

record extension_installation_metadata =
  meta_id :: string
  meta_name :: string
  meta_version :: string
  meta_enabled :: bool

record extension_store =
  availableExtensions :: "(string \<times> available_extension) list"
  installedExtensions :: "(string \<times> extension_installation_metadata) list"

definition isExtensionInstalled :: "extension_store \<Rightarrow> string \<Rightarrow> bool" where
  "isExtensionInstalled st extensionId = (map_of (installedExtensions st) extensionId \<noteq> None)"

definition getExtensionForFile :: "extension_store \<Rightarrow> string \<Rightarrow> available_extension option" where
  "getExtensionForFile st filePath =
     (let ext = map toLowerCase (last (split_on (CHR ''.'') filePath)) in
      if ext = [] then None
      else
        (let fileExt = CHR ''.'' # ext in
         find (\<lambda>extension.
                 (case languages (manifest extension) of
                    None \<Rightarrow> False
                  | Some langs \<Rightarrow> list_ex (\<lambda>lang. fileExt \<in> set (lang_extensions lang)) langs))
              (map snd (availableExtensions st))))"

section \<open>Buffer store: actions\<close>

text \<open>
  What \<open>openBuffer\<close> reads from outside the store: the clock, the language detector
  (its source is not at hand, so it is a parameter), and, when the asynchronous
  continuation of the extension check runs, the extension store and the root folder of
  the file-system store. Dynamic module imports are taken to succeed.
\<close>

record open_env =
  now :: nat
  detectLanguageFromFileName :: "string \<Rightarrow> string option"
  extensionStore :: extension_store
  rootFolderPath :: "string option"

text \<open>
  The extension check that \<open>openBuffer\<close> schedules for a real file: no descriptor, no
  action; an installed descriptor, an LSP start for the file with the root folder (or
  the path itself when no root is open) as workspace; otherwise the install-needed
  event.
\<close>

definition extensionGate :: "open_env \<Rightarrow> string \<Rightarrow> effect list" where
  "extensionGate env p =
     (case getExtensionForFile (extensionStore env) p of
        None \<Rightarrow> []
      | Some extension \<Rightarrow>
          if isExtensionInstalled (extensionStore env) (ext_id (manifest extension))
          then [LspStartForFile p
                  (case rootFolderPath env of
                     None \<Rightarrow> p
                   | Some r \<Rightarrow> if r = [] then p else r)]
          else [InstallNeeded (ext_id (manifest extension)) (displayName (manifest extension)) p])"

text \<open>
  The max-tabs limit of \<open>openBuffer\<close>. When the limit is reached and no buffer is
  unpinned, \<open>lruBuffer\<close> is \<open>undefined\<close>. Its \<open>id\<close> is read inside the callback of
  \<open>newBuffers.filter\<close>, so the read throws when the list has an element (all of them
  pinned), and never happens when the list is empty.
\<close>

definition evictLru :: "buffer list \<Rightarrow> int \<Rightarrow> error + buffer list" where
  "evictLru newBuffers maxTabs =
     (if maxTabs \<le> int (length (filter (\<lambda>b. \<not> isPinned b) newBuffers))
      then (case filter (\<lambda>b. \<not> isPinned b) newBuffers of
              [] \<Rightarrow> (case newBuffers of [] \<Rightarrow> Inr [] | b # bs \<Rightarrow> Inl TypeError)
            | lruBuffer # _ \<Rightarrow> Inr (filter (\<lambda>b. bid b \<noteq> bid lruBuffer) newBuffers))
      else Inr newBuffers)"

definition openBuffer ::
  "open_env \<Rightarrow> string \<Rightarrow> string \<Rightarrow> string \<Rightarrow> bool \<Rightarrow> bool \<Rightarrow> bool \<Rightarrow> bool \<Rightarrow> diff_data option
     \<Rightarrow> buffer_state \<Rightarrow> error + (string \<times> buffer_state)" where
  "openBuffer env p nm c isImg isSql isDf isVirt dd s =
     (case find (\<lambda>b. path b = p) (buffers s) of
        Some existing \<Rightarrow>
          Inr (bid existing,
               s\<lparr>activeBufferId := Some (bid existing),
                 buffers := map (\<lambda>b. b\<lparr>isActive := (bid b = bid existing)\<rparr>) (buffers s)\<rparr>)
      | None \<Rightarrow>
          (case evictLru (buffers s) (maxOpenTabs s) of
             Inl e \<Rightarrow> Inl e
           | Inr newBuffers \<Rightarrow>
               (let newBuffer =
                      \<lparr>bid = generateBufferId p (now env), path = p, name = nm, content = c,
                       isDirty = False, isVirtual = isVirt, isPinned = False, isImage = isImg,
                       isSQLite = isSql, isDiff = isDf, isActive = True,
                       language = detectLanguageFromFileName env nm, diffData = dd,
                       tokens = []\<rparr>;
                    bs = map (\<lambda>b. b\<lparr>isActive := False\<rparr>) newBuffers @ [newBuffer];
                    fx = (if \<not> isVirt \<and> \<not> isDf \<and> \<not> isImg \<and> \<not> isSql
                          then AddRecentFile p nm # extensionGate env p else [])
                         @ [SaveSession bs (Some (bid newBuffer))]
                in Inr (bid newBuffer,
                        s\<lparr>buffers := bs, activeBufferId := Some (bid newBuffer),
                          emitted := emitted s @ fx\<rparr>))))"

definition closeBufferForce :: "editor_constants \<Rightarrow> string \<Rightarrow> buffer_state \<Rightarrow> buffer_state" where
  "closeBufferForce K i s =
     (case findIndex (\<lambda>b. bid b = i) (buffers s) of
        None \<Rightarrow> s
      | Some bufferIndex \<Rightarrow>
          (let closedBuffer = buffers s ! bufferIndex;
               real = (\<not> isVirtual closedBuffer \<and> \<not> isDiff closedBuffer \<and>
                       \<not> isImage closedBuffer \<and> \<not> isSQLite closedBuffer);
               updatedHistory =
                 take (MAX_CLOSED_BUFFERS_HISTORY K)
                   (\<lparr>cb_path = path closedBuffer, cb_name = name closedBuffer,
                     cb_isPinned = isPinned closedBuffer\<rparr> # closedBuffersHistory s);
               newBuffers = filter (\<lambda>b. bid b \<noteq> i) (buffers s);
               newActiveId =
                 (if activeBufferId s = Some i
                  then (if newBuffers \<noteq> []
                        then Some (bid (newBuffers ! min bufferIndex (length newBuffers - 1)))
                        else None)
                  else activeBufferId s);
               bs = map (\<lambda>b. b\<lparr>isActive := (Some (bid b) = newActiveId)\<rparr>) newBuffers
           in s\<lparr>closedBuffersHistory :=
                  (if real then updatedHistory else closedBuffersHistory s),
                buffers := bs,
                activeBufferId := newActiveId,
                emitted := emitted s @ (if real then [LspStopForFile (path closedBuffer)] else [])
                             @ [SaveSession bs newActiveId]\<rparr>))"

definition closeBuffer :: "editor_constants \<Rightarrow> string \<Rightarrow> buffer_state \<Rightarrow> buffer_state" where
  "closeBuffer K i s =
     (case find (\<lambda>b. bid b = i) (buffers s) of
        None \<Rightarrow> s
      | Some b \<Rightarrow>
          if isDirty b
          then s\<lparr>pendingClose := Some \<lparr>bufferId = i, pc_type = CloseSingle, keepBufferId = None\<rparr>\<rparr>
          else closeBufferForce K i s)"

definition closeBuffersBatch :: "string list \<Rightarrow> bool \<Rightarrow> buffer_state \<Rightarrow> buffer_state" where
  "closeBuffersBatch bufferIds skipSessionSave s =
     (if bufferIds = [] then s
      else
        (let bs = filter (\<lambda>b. bid b \<notin> set bufferIds) (buffers s);
             s1 = (if (case activeBufferId s of None \<Rightarrow> [] | Some a \<Rightarrow> a) \<in> set bufferIds
                   then (case bs of
                           [] \<Rightarrow> s\<lparr>buffers := bs, activeBufferId := None\<rparr>
                         | b0 # rest \<Rightarrow>
                             s\<lparr>buffers := b0\<lparr>isActive := True\<rparr> # rest,
                               activeBufferId := Some (bid b0)\<rparr>)
                   else s\<lparr>buffers := bs\<rparr>)
         in if skipSessionSave then s1
            else s1\<lparr>emitted := emitted s1 @ [SaveSession (buffers s1) (activeBufferId s1)]\<rparr>))"

text \<open>\<open>setActiveBuffer\<close> and \<open>handleTabClick\<close> have the same body.\<close>

definition setActiveBuffer :: "string \<Rightarrow> buffer_state \<Rightarrow> buffer_state" where
  "setActiveBuffer i s =
     s\<lparr>activeBufferId := Some i,
       buffers := map (\<lambda>b. b\<lparr>isActive := (bid b = i)\<rparr>) (buffers s),
       emitted := emitted s @ [RestorePosition i]\<rparr>"

definition handleTabClick :: "string \<Rightarrow> buffer_state \<Rightarrow> buffer_state" where
  "handleTabClick i s =
     s\<lparr>activeBufferId := Some i,
       buffers := map (\<lambda>b. b\<lparr>isActive := (bid b = i)\<rparr>) (buffers s),
       emitted := emitted s @ [RestorePosition i]\<rparr>"

definition updateBufferContent ::
  "string \<Rightarrow> string \<Rightarrow> bool \<Rightarrow> diff_data option \<Rightarrow> buffer_state \<Rightarrow> buffer_state" where
  "updateBufferContent i c markDirty dd s =
     (case find (\<lambda>b. bid b = i) (buffers s) of
        None \<Rightarrow> s
      | Some b \<Rightarrow>
          if content b = c \<and> dd = None then s
          else s\<lparr>buffers :=
                   updateFound (\<lambda>b. bid b = i)
                     (\<lambda>b. (let b1 = b\<lparr>content := c\<rparr>;
                                b2 = (case dd of None \<Rightarrow> b1 | Some d \<Rightarrow> b1\<lparr>diffData := Some d\<rparr>)
                            in if \<not> isVirtual b2 then b2\<lparr>isDirty := markDirty\<rparr> else b2))
                     (buffers s)\<rparr>)"

definition updateBufferTokens :: "string \<Rightarrow> token list \<Rightarrow> buffer_state \<Rightarrow> buffer_state" where
  "updateBufferTokens i ts s =
     s\<lparr>buffers := updateFound (\<lambda>b. bid b = i) (\<lambda>b. b\<lparr>tokens := ts\<rparr>) (buffers s)\<rparr>"

definition markBufferDirty :: "string \<Rightarrow> bool \<Rightarrow> buffer_state \<Rightarrow> buffer_state" where
  "markBufferDirty i d s =
     s\<lparr>buffers := updateFound (\<lambda>b. bid b = i) (\<lambda>b. b\<lparr>isDirty := d\<rparr>) (buffers s)\<rparr>"

definition updateBuffer :: "buffer \<Rightarrow> buffer_state \<Rightarrow> buffer_state" where
  "updateBuffer updatedBuffer s =
     (case findIndex (\<lambda>b. bid b = bid updatedBuffer) (buffers s) of
        None \<Rightarrow> s
      | Some index \<Rightarrow> s\<lparr>buffers := (buffers s)[index := updatedBuffer]\<rparr>)"

definition handleTabClose :: "editor_constants \<Rightarrow> string \<Rightarrow> buffer_state \<Rightarrow> buffer_state" where
  "handleTabClose K i s = closeBuffer K i s"

definition handleTabPin :: "string \<Rightarrow> buffer_state \<Rightarrow> buffer_state" where
  "handleTabPin i s =
     (let bs = updateFound (\<lambda>b. bid b = i) (\<lambda>b. b\<lparr>isPinned := \<not> isPinned b\<rparr>) (buffers s)
      in s\<lparr>buffers := bs, emitted := emitted s @ [SaveSession bs (activeBufferId s)]\<rparr>)"

text \<open>
  \<open>buffersToClose.forEach((buffer) => closeBufferForce(buffer.id))\<close>: the list is
  fixed before the loop, each call reads the state the previous one left.
\<close>

definition forceCloseAll :: "editor_constants \<Rightarrow> buffer list \<Rightarrow> buffer_state \<Rightarrow> buffer_state" where
  "forceCloseAll K buffersToClose s = fold (\<lambda>b. closeBufferForce K (bid b)) buffersToClose s"

definition handleCloseOtherTabs :: "editor_constants \<Rightarrow> string \<Rightarrow> buffer_state \<Rightarrow> buffer_state" where
  "handleCloseOtherTabs K keep s =
     (let buffersToClose = filter (\<lambda>b. bid b \<noteq> keep \<and> \<not> isPinned b) (buffers s) in
      case find isDirty buffersToClose of
        Some dirtyBuffer \<Rightarrow>
          s\<lparr>pendingClose :=
              Some \<lparr>bufferId = bid dirtyBuffer, pc_type = CloseOthers, keepBufferId = Some keep\<rparr>\<rparr>
      | None \<Rightarrow> forceCloseAll K buffersToClose s)"

definition handleCloseAllTabs :: "editor_constants \<Rightarrow> buffer_state \<Rightarrow> buffer_state" where
  "handleCloseAllTabs K s =
     (let buffersToClose = filter (\<lambda>b. \<not> isPinned b) (buffers s) in
      case find isDirty buffersToClose of
        Some dirtyBuffer \<Rightarrow>
          s\<lparr>pendingClose :=
              Some \<lparr>bufferId = bid dirtyBuffer, pc_type = CloseAll, keepBufferId = None\<rparr>\<rparr>
      | None \<Rightarrow> forceCloseAll K buffersToClose s)"

definition handleCloseTabsToRight :: "editor_constants \<Rightarrow> string \<Rightarrow> buffer_state \<Rightarrow> buffer_state" where
  "handleCloseTabsToRight K i s =
     (case findIndex (\<lambda>b. bid b = i) (buffers s) of
        None \<Rightarrow> s
      | Some bufferIndex \<Rightarrow>
          (let buffersToClose = filter (\<lambda>b. \<not> isPinned b) (drop (bufferIndex + 1) (buffers s)) in
           case find isDirty buffersToClose of
             Some dirtyBuffer \<Rightarrow>
               s\<lparr>pendingClose :=
                   Some \<lparr>bufferId = bid dirtyBuffer, pc_type = CloseToRight, keepBufferId = None\<rparr>\<rparr>
           | None \<Rightarrow> forceCloseAll K buffersToClose s))"

text \<open>
  \<open>reorderBuffers\<close>. When \<open>startIndex\<close> selects no element, \<open>splice\<close> removes nothing,
  \<open>removed\<close> is \<open>undefined\<close> and the source stores it in the list: the state is then
  no longer a list of buffers, which the model reports as \<open>UndefinedElement\<close>.
\<close>

definition reorderBuffers :: "int \<Rightarrow> int \<Rightarrow> buffer_state \<Rightarrow> error + buffer_state" where
  "reorderBuffers startIndex endIndex s =
     (let result = buffers s; st = spliceIndex startIndex (length result) in
      if length result \<le> st then Inl UndefinedElement
      else
        (let removed = result ! st;
             rest = take st result @ drop (Suc st) result;
             en = spliceIndex endIndex (length rest);
             bs = take en rest @ [removed] @ drop en rest
         in Inr (s\<lparr>buffers := bs, emitted := emitted s @ [SaveSession bs (activeBufferId s)]\<rparr>)))"

text \<open>
  The index arithmetic of the two switch actions is on integers, with \<open>-1\<close> for "not
  found". The dividend is negative only for one buffer and no match in
  \<open>switchToPreviousBuffer\<close>, where JavaScript yields \<open>-0\<close>, which indexes element 0,
  as \<open>mod\<close> does here.
\<close>

definition currentIndex :: "buffer_state \<Rightarrow> int" where
  "currentIndex s =
     (case findIndex (\<lambda>b. Some (bid b) = activeBufferId s) (buffers s) of
        None \<Rightarrow> - 1
      | Some i \<Rightarrow> int i)"

definition switchTo :: "string \<Rightarrow> buffer_state \<Rightarrow> buffer_state" where
  "switchTo i s =
     s\<lparr>activeBufferId := Some i,
       buffers := map (\<lambda>b. b\<lparr>isActive := (bid b = i)\<rparr>) (buffers s),
       emitted := emitted s @ [RestorePosition i]\<rparr>"

definition switchToNextBuffer :: "buffer_state \<Rightarrow> buffer_state" where
  "switchToNextBuffer s =
     (if buffers s = [] then s
      else
        (let nextIndex = (currentIndex s + 1) mod int (length (buffers s));
             nextBufferId = bid (buffers s ! nat nextIndex)
         in switchTo nextBufferId s))"

definition switchToPreviousBuffer :: "buffer_state \<Rightarrow> buffer_state" where
  "switchToPreviousBuffer s =
     (if buffers s = [] then s
      else
        (let prevIndex = (currentIndex s - 1 + int (length (buffers s))) mod int (length (buffers s));
             prevBufferId = bid (buffers s ! nat prevIndex)
         in switchTo prevBufferId s))"

definition getActiveBuffer :: "buffer_state \<Rightarrow> buffer option" where
  "getActiveBuffer s = find (\<lambda>b. Some (bid b) = activeBufferId s) (buffers s)"

definition setMaxOpenTabs :: "int \<Rightarrow> buffer_state \<Rightarrow> buffer_state" where
  "setMaxOpenTabs m s = s\<lparr>maxOpenTabs := m\<rparr>"

definition setPendingClose :: "pending_close option \<Rightarrow> buffer_state \<Rightarrow> buffer_state" where
  "setPendingClose pending s = s\<lparr>pendingClose := pending\<rparr>"

definition cancelPendingClose :: "buffer_state \<Rightarrow> buffer_state" where
  "cancelPendingClose s = s\<lparr>pendingClose := None\<rparr>"

definition confirmCloseWithoutSaving :: "editor_constants \<Rightarrow> buffer_state \<Rightarrow> buffer_state" where
  "confirmCloseWithoutSaving K s =
     (case pendingClose s of
        None \<Rightarrow> s
      | Some pc \<Rightarrow>
          (let s0 = s\<lparr>pendingClose := None\<rparr> in
           case pc_type pc of
             CloseSingle \<Rightarrow> closeBufferForce K (bufferId pc) s0
           | CloseOthers \<Rightarrow>
               (case keepBufferId pc of
                  None \<Rightarrow> s0
                | Some keep \<Rightarrow>
                    if keep = [] then s0
                    else forceCloseAll K
                           (filter (\<lambda>b. bid b \<noteq> keep \<and> \<not> isPinned b) (buffers s0)) s0)
           | CloseAll \<Rightarrow> forceCloseAll K (filter (\<lambda>b. \<not> isPinned b) (buffers s0)) s0
           | CloseToRight \<Rightarrow>
               (case findIndex (\<lambda>b. bid b = bufferId pc) (buffers s0) of
                  None \<Rightarrow> s0
                | Some bufferIndex \<Rightarrow>
                    forceCloseAll K
                      (filter (\<lambda>b. \<not> isPinned b) (drop (bufferIndex + 1) (buffers s0))) s0)))"

text \<open>
  The two asynchronous actions await \<open>readFileContent\<close>. Each is split at the await:
  the part before it, and the part that runs when the read has succeeded, on whatever
  state the store has by then. A failed read is logged and changes nothing further.
\<close>

definition reloadBufferFromDisk_target :: "string \<Rightarrow> buffer_state \<Rightarrow> string option" where
  "reloadBufferFromDisk_target i s =
     (case find (\<lambda>b. bid b = i) (buffers s) of
        None \<Rightarrow> None
      | Some b \<Rightarrow> if isVirtual b \<or> isImage b \<or> isSQLite b then None else Some (path b))"

definition reloadBufferFromDisk_resume :: "string \<Rightarrow> string \<Rightarrow> buffer_state \<Rightarrow> buffer_state" where
  "reloadBufferFromDisk_resume i fileContent s = updateBufferContent i fileContent False None s"

definition reopenClosedTab_begin :: "buffer_state \<Rightarrow> closed_buffer option \<times> buffer_state" where
  "reopenClosedTab_begin s =
     (case closedBuffersHistory s of
        [] \<Rightarrow> (None, s)
      | closedBuffer # remainingHistory \<Rightarrow>
          (Some closedBuffer, s\<lparr>closedBuffersHistory := remainingHistory\<rparr>))"

definition reopenClosedTab_resume ::
  "open_env \<Rightarrow> closed_buffer \<Rightarrow> string \<Rightarrow> buffer_state \<Rightarrow> buffer_state" where
  "reopenClosedTab_resume env closedBuffer fileContent s =
     (case openBuffer env (cb_path closedBuffer) (cb_name closedBuffer) fileContent
             False False False False None s of
        Inl e \<Rightarrow> s
      | Inr (i, s1) \<Rightarrow> if cb_isPinned closedBuffer then handleTabPin i s1 else s1)"

section \<open>Runs of the store\<close>

text \<open>
  The synchronous public actions of the store, and the synchronous first part of
  \<open>reopenClosedTab\<close>. The parts of the two asynchronous actions that run after their
  await are calls of \<open>openBuffer\<close>, \<open>handleTabPin\<close> and \<open>updateBufferContent\<close>, so
  they are runs of the actions below.
\<close>

datatype action =
    OpenBuffer open_env string string string bool bool bool bool "diff_data option"
  | CloseBuffer string
  | CloseBufferForce string
  | CloseBuffersBatch "string list" bool
  | SetActiveBuffer string
  | UpdateBufferContent string string bool "diff_data option"
  | UpdateBufferTokens string "token list"
  | MarkBufferDirty string bool
  | UpdateBuffer buffer
  | HandleTabClick string
  | HandleTabClose string
  | HandleTabPin string
  | HandleCloseOtherTabs string
  | HandleCloseAllTabs
  | HandleCloseTabsToRight string
  | ReorderBuffers int int
  | SwitchToNextBuffer
  | SwitchToPreviousBuffer
  | SetMaxOpenTabs int
  | SetPendingClose "pending_close option"
  | ConfirmCloseWithoutSaving
  | CancelPendingClose
  | ReopenClosedTabBegin

fun exec :: "editor_constants \<Rightarrow> action \<Rightarrow> buffer_state \<Rightarrow> error + buffer_state" where
  "exec K (OpenBuffer env p nm c isImg isSql isDf isVirt dd) s =
     (case openBuffer env p nm c isImg isSql isDf isVirt dd s of
        Inl e \<Rightarrow> Inl e
      | Inr (i, s1) \<Rightarrow> Inr s1)"
| "exec K (CloseBuffer i) s = Inr (closeBuffer K i s)"
| "exec K (CloseBufferForce i) s = Inr (closeBufferForce K i s)"
| "exec K (CloseBuffersBatch ids skip) s = Inr (closeBuffersBatch ids skip s)"
| "exec K (SetActiveBuffer i) s = Inr (setActiveBuffer i s)"
| "exec K (UpdateBufferContent i c md dd) s = Inr (updateBufferContent i c md dd s)"
| "exec K (UpdateBufferTokens i ts) s = Inr (updateBufferTokens i ts s)"
| "exec K (MarkBufferDirty i d) s = Inr (markBufferDirty i d s)"
| "exec K (UpdateBuffer b) s = Inr (updateBuffer b s)"
| "exec K (HandleTabClick i) s = Inr (handleTabClick i s)"
| "exec K (HandleTabClose i) s = Inr (handleTabClose K i s)"
| "exec K (HandleTabPin i) s = Inr (handleTabPin i s)"
| "exec K (HandleCloseOtherTabs i) s = Inr (handleCloseOtherTabs K i s)"
| "exec K HandleCloseAllTabs s = Inr (handleCloseAllTabs K s)"
| "exec K (HandleCloseTabsToRight i) s = Inr (handleCloseTabsToRight K i s)"
| "exec K (ReorderBuffers a b) s = reorderBuffers a b s"
| "exec K SwitchToNextBuffer s = Inr (switchToNextBuffer s)"
| "exec K SwitchToPreviousBuffer s = Inr (switchToPreviousBuffer s)"
| "exec K (SetMaxOpenTabs m) s = Inr (setMaxOpenTabs m s)"
| "exec K (SetPendingClose pc) s = Inr (setPendingClose pc s)"
| "exec K ConfirmCloseWithoutSaving s = Inr (confirmCloseWithoutSaving K s)"
| "exec K CancelPendingClose s = Inr (cancelPendingClose s)"
| "exec K ReopenClosedTabBegin s = Inr (snd (reopenClosedTab_begin s))"

text \<open>
  A run stops at the first action that fails. \<open>openBuffer\<close> throws before it changes
  anything, so a run with that call left out reaches the same states.
\<close>

fun run :: "editor_constants \<Rightarrow> action list \<Rightarrow> buffer_state \<Rightarrow> error + buffer_state" where
  "run K [] s = Inr s"
| "run K (a # as) s = (case exec K a s of Inl e \<Rightarrow> Inl e | Inr s1 \<Rightarrow> run K as s1)"

text \<open>
  Active-buffer exclusivity: with no buffer, no active id; otherwise exactly one buffer
  is flagged active and the active id is its id.
\<close>

definition active_exclusive :: "buffer_state \<Rightarrow> bool" where
  "active_exclusive s =
     (if buffers s = [] then activeBufferId s = None
      else (case filter isActive (buffers s) of
              [b] \<Rightarrow> activeBufferId s = Some (bid b)
            | _ \<Rightarrow> False))"

text \<open>
  What a caller must respect for exclusivity to survive an action: an activation names
  an open buffer; a buffer written back by \<open>updateBuffer\<close> keeps the active flag of the
  one it replaces; and the id generated for a new buffer is not in use (the clock and
  the path decide that, not the store).
\<close>

fun well_addressed :: "action \<Rightarrow> buffer_state \<Rightarrow> bool" where
  "well_addressed (OpenBuffer env p nm c isImg isSql isDf isVirt dd) s =
     (find (\<lambda>b. path b = p) (buffers s) \<noteq> None \<or>
      generateBufferId p (now env) \<notin> set (map bid (buffers s)))"
| "well_addressed (SetActiveBuffer i) s = (i \<in> set (map bid (buffers s)))"
| "well_addressed (HandleTabClick i) s = (i \<in> set (map bid (buffers s)))"
| "well_addressed (UpdateBuffer b) s =
     (case find (\<lambda>x. bid x = bid b) (buffers s) of
        None \<Rightarrow> True
      | Some old \<Rightarrow> isActive b = isActive old)"
| "well_addressed a s = True"

fun well_addressed_run :: "editor_constants \<Rightarrow> action list \<Rightarrow> buffer_state \<Rightarrow> bool" where
  "well_addressed_run K [] s = True"
| "well_addressed_run K (a # as) s =
     (well_addressed a s \<and>
      (case exec K a s of Inl e \<Rightarrow> True | Inr s1 \<Rightarrow> well_addressed_run K as s1))"

text \<open>
  The invariant behind exclusivity: the ids are pairwise distinct, a buffer is flagged
  active exactly when its id is the active id, and the active id is the id of an open
  buffer, or null when none is open.
\<close>

definition store_inv :: "buffer_state \<Rightarrow> bool" where
  "store_inv s =
     (distinct (map bid (buffers s)) \<and>
      (\<forall>b\<in>set (buffers s). isActive b = (Some (bid b) = activeBufferId s)) \<and>
      (case activeBufferId s of
         None \<Rightarrow> buffers s = []
       | Some a \<Rightarrow> a \<in> set (map bid (buffers s))))"

definition unpinnedCount :: "buffer_state \<Rightarrow> nat" where
  "unpinnedCount s = length (filter (\<lambda>b. \<not> isPinned b) (buffers s))"

text \<open>The entry that \<open>reopenClosedTab\<close> would reopen.\<close>

definition reopenTarget :: "buffer_state \<Rightarrow> closed_buffer option" where
  "reopenTarget s = fst (reopenClosedTab_begin s)"

section \<open>LSP client\<close>

text \<open>
  A call of the host (\<open>invoke\<close>) is a promise: it is rejected, it resolves, or it
  never settles. The client's own asynchronous methods are given at their awaits: what
  runs up to the await, and what runs when the host has answered.
\<close>

datatype 'a outcome = Rejected string | Resolved 'a | Pending

record completion_item =
  label :: string

record hover =
  contents :: string

datatype host_command =
    LspStartForFileCmd string string "string option" "string list option"
  | LspGetCompletionsCmd string int int
  | LspGetHoverCmd string int int

record lsp_client =
  activeLanguageServers :: "string list"
  invoked :: "host_command list"

text \<open>
  The extension registry that the client asks for server path, arguments and language
  id is not among the sources; its three queries are parameters.
\<close>

record extension_registry =
  getLspServerPath :: "string \<Rightarrow> string option"
  getLspServerArgs :: "string \<Rightarrow> string list option"
  getLanguageId :: "string \<Rightarrow> string option"

text \<open>\<open>x || undefined\<close> on a string or null: the empty string is falsy.\<close>

definition orUndefined :: "string option \<Rightarrow> string option" where
  "orUndefined x = (case x of None \<Rightarrow> None | Some v \<Rightarrow> if v = [] then None else Some v)"

definition serverKey :: "string \<Rightarrow> string \<Rightarrow> string" where
  "serverKey workspacePath languageId = workspacePath @ '':'' @ languageId"

text \<open>\<open>Set.prototype.add\<close> on a set kept in insertion order.\<close>

definition setAdd :: "'a \<Rightarrow> 'a list \<Rightarrow> 'a list" where
  "setAdd x xs = (if x \<in> set xs then xs else xs @ [x])"

text \<open>
  The reply of \<open>lsp_get_completions\<close> is typed as an array, but nothing checks it at
  run time: \<open>None\<close> is a reply of \<open>null\<close>, on which reading \<open>length\<close> throws inside
  the \<open>try\<close>.
\<close>

definition getCompletions ::
  "(string \<Rightarrow> int \<Rightarrow> int \<Rightarrow> completion_item list option outcome) \<Rightarrow> string \<Rightarrow> int \<Rightarrow> int
     \<Rightarrow> completion_item list outcome" where
  "getCompletions host filePath line character =
     (case host filePath line character of
        Rejected e \<Rightarrow> Resolved []
      | Resolved None \<Rightarrow> Resolved []
      | Resolved (Some completions) \<Rightarrow> Resolved completions
      | Pending \<Rightarrow> Pending)"

definition getHover ::
  "(string \<Rightarrow> int \<Rightarrow> int \<Rightarrow> hover option outcome) \<Rightarrow> string \<Rightarrow> int \<Rightarrow> int
     \<Rightarrow> hover option outcome" where
  "getHover host filePath line character =
     (case host filePath line character of
        Rejected e \<Rightarrow> Resolved None
      | Resolved h \<Rightarrow> Resolved h
      | Pending \<Rightarrow> Pending)"

datatype start_phase = AlreadyRunning | AwaitingHost "string option"

text \<open>
  \<open>startForFile\<close> up to \<open>await invoke("lsp_start_for_file", ...)\<close>: the already-running
  check, and the call of the host. The language id is what the continuation keeps.
\<close>

definition startForFile_begin ::
  "extension_registry \<Rightarrow> string \<Rightarrow> string \<Rightarrow> lsp_client \<Rightarrow> start_phase \<times> lsp_client" where
  "startForFile_begin reg filePath workspacePath cl =
     (let serverPath = orUndefined (getLspServerPath reg filePath);
          serverArgs = getLspServerArgs reg filePath;
          languageId = orUndefined (getLanguageId reg filePath);
          running = (case (serverPath, languageId) of
                       (Some sp, Some l) \<Rightarrow> serverKey workspacePath l \<in> set (activeLanguageServers cl)
                     | _ \<Rightarrow> False)
      in if running then (AlreadyRunning, cl)
         else (AwaitingHost languageId,
               cl\<lparr>invoked := invoked cl @
                    [LspStartForFileCmd filePath workspacePath serverPath serverArgs]\<rparr>))"

text \<open>\<open>startForFile\<close> after the await: a rejection is logged and rethrown.\<close>

definition startForFile_resume ::
  "string \<Rightarrow> string option \<Rightarrow> unit outcome \<Rightarrow> lsp_client \<Rightarrow> unit outcome \<times> lsp_client" where
  "startForFile_resume workspacePath languageId reply cl =
     (case reply of
        Rejected e \<Rightarrow> (Rejected e, cl)
      | Pending \<Rightarrow> (Pending, cl)
      | Resolved u \<Rightarrow>
          (Resolved (),
           (case languageId of
              None \<Rightarrow> cl
            | Some l \<Rightarrow>
                cl\<lparr>activeLanguageServers :=
                     setAdd (serverKey workspacePath l) (activeLanguageServers cl)\<rparr>)))"

definition spawnRequests :: "lsp_client \<Rightarrow> nat" where
  "spawnRequests cl =
     length (filter (\<lambda>c. case c of LspStartForFileCmd f w sp sa \<Rightarrow> True | _ \<Rightarrow> False) (invoked cl))"

text \<open>
  Two schedules of two calls of \<open>startForFile\<close> on the single-threaded event loop: a
  call whose continuation runs before anything else does, and two calls of which the
  second begins while the first awaits the host (the host then answers both, in order).
\<close>

definition startForFile_alone ::
  "unit outcome \<Rightarrow> extension_registry \<Rightarrow> string \<Rightarrow> string \<Rightarrow> lsp_client \<Rightarrow> lsp_client" where
  "startForFile_alone reply reg filePath workspacePath cl =
     (case startForFile_begin reg filePath workspacePath cl of
        (AlreadyRunning, cl1) \<Rightarrow> cl1
      | (AwaitingHost l, cl1) \<Rightarrow> snd (startForFile_resume workspacePath l reply cl1))"

definition startForFile_overlapped ::
  "extension_registry \<Rightarrow> string \<Rightarrow> string \<Rightarrow> lsp_client \<Rightarrow> lsp_client" where
  "startForFile_overlapped reg filePath workspacePath cl =
     (case startForFile_begin reg filePath workspacePath cl of (p1, cl1) \<Rightarrow>
      (case startForFile_begin reg filePath workspacePath cl1 of (p2, cl2) \<Rightarrow>
       (let cl3 = (case p1 of
                     AlreadyRunning \<Rightarrow> cl2
                   | AwaitingHost l \<Rightarrow> snd (startForFile_resume workspacePath l (Resolved ()) cl2))
        in (case p2 of
              AlreadyRunning \<Rightarrow> cl3
            | AwaitingHost l \<Rightarrow> snd (startForFile_resume workspacePath l (Resolved ()) cl3)))))"

section \<open>Example values\<close>

text \<open>Concrete buffers, states and environments at which the theorems are instantiated.\<close>

definition example_K :: editor_constants where
  "example_K = \<lparr>MAX_OPEN_TABS = 2, MAX_CLOSED_BUFFERS_HISTORY = 10\<rparr>"

definition example_buffer :: "string \<Rightarrow> string \<Rightarrow> string \<Rightarrow> buffer" where
  "example_buffer i p c =
     \<lparr>bid = i, path = p, name = p, content = c, isDirty = False, isVirtual = False,
      isPinned = False, isImage = False, isSQLite = False, isDiff = False, isActive = False,
      language = None, diffData = None, tokens = []\<rparr>"

definition example_state :: "buffer list \<Rightarrow> string option \<Rightarrow> buffer_state" where
  "example_state bs a =
     \<lparr>buffers = bs, activeBufferId = a, maxOpenTabs = 2, pendingClose = None,
      closedBuffersHistory = [], emitted = []\<rparr>"

definition example_store :: extension_store where
  "example_store =
     \<lparr>availableExtensions =
        [(''athas.typescript'',
          \<lparr>manifest =
             \<lparr>ext_id = ''athas.typescript'', ext_name = ''TypeScript'',
              displayName = ''TypeScript'',
              languages = Some
                [\<lparr>lang_id = ''typescript'', lang_extensions = [''.ts'', ''.tsx'', ''.mts'', ''.cts''],
                  lang_aliases = Some [''TypeScript'', ''ts'']\<rparr>,
                 \<lparr>lang_id = ''javascript'', lang_extensions = [''.js'', ''.jsx'', ''.mjs'', ''.cjs''],
                  lang_aliases = Some [''JavaScript'', ''js'']\<rparr>]\<rparr>,
            isInstalled = False, isInstalling = False\<rparr>),
         (''athas.rust'',
          \<lparr>manifest =
             \<lparr>ext_id = ''athas.rust'', ext_name = ''Rust'', displayName = ''Rust'',
              languages = Some
                [\<lparr>lang_id = ''rust'', lang_extensions = [''.rs''],
                  lang_aliases = Some [''Rust'', ''rs'']\<rparr>]\<rparr>,
            isInstalled = True, isInstalling = False\<rparr>)],
      installedExtensions =
        [(''athas.rust'',
          \<lparr>meta_id = ''athas.rust'', meta_name = ''Rust'', meta_version = ''1.0.0'',
           meta_enabled = True\<rparr>)]\<rparr>"

definition example_env :: "nat \<Rightarrow> open_env" where
  "example_env t =
     \<lparr>now = t, detectLanguageFromFileName = (\<lambda>n. None), extensionStore = example_store,
      rootFolderPath = Some ''/w''\<rparr>"

definition example_registry :: extension_registry where
  "example_registry =
     \<lparr>getLspServerPath = (\<lambda>f. Some ''/extensions/typescript/server''),
      getLspServerArgs = (\<lambda>f. Some [''--stdio'']),
      getLanguageId = (\<lambda>f. Some ''typescript'')\<rparr>"

section \<open>Facts about the helpers\<close>

lemma find_findIndex:
  "find P xs = (case findIndex P xs of None \<Rightarrow> None | Some i \<Rightarrow> Some (xs ! i))"
  by (induction xs) (auto split: option.splits)

lemma findIndex_Some:
  "findIndex P xs = Some i \<Longrightarrow> i < length xs \<and> P (xs ! i) \<and> (\<forall>j<i. \<not> P (xs ! j))"
proof (induction xs arbitrary: i)
  case Nil
  then show ?case by simp
next
  case (Cons x xs)
  show ?case
  proof (cases "P x")
    case True
    with Cons.prems show ?thesis by simp
  next
    case False
    with Cons.prems obtain k where k: "findIndex P xs = Some k" "i = Suc k"
      by (auto split: option.splits)
    from Cons.IH[OF k(1)] False k(2) show ?thesis
      by (auto simp: less_Suc_eq_0_disj)
  qed
qed

lemma findIndex_None: "findIndex P xs = None \<longleftrightarrow> (\<forall>x\<in>set xs. \<not> P x)"
  by (induction xs) (auto split: option.splits)

section \<open>Idempotent content update\<close>

text \<open>
  C5. \<open>updateBufferContent(id, c, markDirty)\<close> without a diff payload returns the
  store state it was given, whole, when \<open>id\<close> names no buffer, and when the content of
  the buffer that \<open>id\<close> names is already \<open>c\<close>: the dirty flag, the tokens and
  everything else are as before. This holds for either value of \<open>markDirty\<close>, so in
  particular for \<open>true\<close>.
\<close>

theorem updateBufferContent_same_content_noop:
  assumes "find (\<lambda>b. bid b = i) (buffers s) = None \<or>
           (\<exists>b. find (\<lambda>b. bid b = i) (buffers s) = Some b \<and> content b = c)"
  shows "updateBufferContent i c markDirty None s = s"
  using assms by (auto simp: updateBufferContent_def)

theorem updateBufferContent_same_content_noop_witness:
  "find (\<lambda>b. bid b = ''b1'')
     (buffers (example_state [example_buffer ''b1'' ''/a.ts'' ''x''] (Some ''b1'')))
     = Some (example_buffer ''b1'' ''/a.ts'' ''x'') \<and>
   content (example_buffer ''b1'' ''/a.ts'' ''x'') = ''x'' \<and>
   updateBufferContent ''b1'' ''x'' True None
     (example_state [example_buffer ''b1'' ''/a.ts'' ''x''] (Some ''b1''))
     = example_state [example_buffer ''b1'' ''/a.ts'' ''x''] (Some ''b1'') \<and>
   find (\<lambda>b. bid b = ''zz'')
     (buffers (example_state [example_buffer ''b1'' ''/a.ts'' ''x''] (Some ''b1''))) = None \<and>
   updateBufferContent ''zz'' ''y'' True None
     (example_state [example_buffer ''b1'' ''/a.ts'' ''x''] (Some ''b1''))
     = example_state [example_buffer ''b1'' ''/a.ts'' ''x''] (Some ''b1'')"
proof -
  let ?s = "example_state [example_buffer ''b1'' ''/a.ts'' ''x''] (Some ''b1'')"
  have f: "find (\<lambda>b. bid b = ''b1'') (buffers ?s) = Some (example_buffer ''b1'' ''/a.ts'' ''x'')"
    by (simp add: example_state_def example_buffer_def)
  have c: "content (example_buffer ''b1'' ''/a.ts'' ''x'') = ''x''"
    by (simp add: example_buffer_def)
  have n: "find (\<lambda>b. bid b = ''zz'') (buffers ?s) = None"
    by (simp add: example_state_def example_buffer_def)
  from f c have h1: "find (\<lambda>b. bid b = ''b1'') (buffers ?s) = None \<or>
      (\<exists>b. find (\<lambda>b. bid b = ''b1'') (buffers ?s) = Some b \<and> content b = ''x'')"
    by blast
  from n have h2: "find (\<lambda>b. bid b = ''zz'') (buffers ?s) = None \<or>
      (\<exists>b. find (\<lambda>b. bid b = ''zz'') (buffers ?s) = Some b \<and> content b = ''y'')"
    by blast
  show ?thesis
    using f c n updateBufferContent_same_content_noop[OF h1, of True]
      updateBufferContent_same_content_noop[OF h2, of True]
    by simp
qed

section \<open>The dirty flag under content updates\<close>

lemma updateBufferContent_changed:
  assumes k: "findIndex (\<lambda>b. bid b = i) (buffers s) = Some k"
    and ch: "content (buffers s ! k) \<noteq> c \<or> dd \<noteq> None"
  shows "buffers (updateBufferContent i c markDirty dd s) =
     (buffers s)[k := (buffers s ! k)\<lparr>content := c,
        diffData := (case dd of None \<Rightarrow> diffData (buffers s ! k) | Some d \<Rightarrow> Some d),
        isDirty := (if isVirtual (buffers s ! k) then isDirty (buffers s ! k) else markDirty)\<rparr>]"
  using k ch
  by (auto simp: updateBufferContent_def find_findIndex updateFound_def Let_def
      split: option.splits intro!: arg_cong[where f="list_update (buffers s) k"])

lemma updateBufferContent_unchanged:
  assumes k: "findIndex (\<lambda>b. bid b = i) (buffers s) = Some k"
    and ch: "\<not> (content (buffers s ! k) \<noteq> c \<or> dd \<noteq> None)"
  shows "updateBufferContent i c markDirty dd s = s"
  using k ch by (auto simp: updateBufferContent_def find_findIndex)

text \<open>
  C10. After \<open>updateBufferContent(id, c, markDirty, diffData)\<close> on a state in which
  \<open>id\<close> names the buffer at position \<open>k\<close>, the dirty flag of that buffer is exactly
  \<open>markDirty\<close> when the buffer is not virtual and the call is not the no-op of C5 (the
  content differs, or a diff payload is given): the argument overwrites the flag, so
  \<open>false\<close> clears it, as \<open>reloadBufferFromDisk\<close> relies on. The dirty flag of a virtual
  buffer, and of every other buffer, is what it was.
\<close>

theorem updateBufferContent_markDirty_overwrites:
  assumes k: "findIndex (\<lambda>b. bid b = i) (buffers s) = Some k"
  shows "length (buffers (updateBufferContent i c markDirty dd s)) = length (buffers s) \<and>
    (\<forall>j < length (buffers s).
       isDirty (buffers (updateBufferContent i c markDirty dd s) ! j) =
         (if j = k \<and> \<not> isVirtual (buffers s ! k) \<and> (content (buffers s ! k) \<noteq> c \<or> dd \<noteq> None)
          then markDirty else isDirty (buffers s ! j)))"
proof (cases "content (buffers s ! k) \<noteq> c \<or> dd \<noteq> None")
  case True
  from findIndex_Some[OF k] have "k < length (buffers s)" by simp
  then show ?thesis
    using True by (simp add: updateBufferContent_changed[OF k True] nth_list_update)
next
  case False
  then show ?thesis
    using updateBufferContent_unchanged[OF k False] by auto
qed

theorem updateBufferContent_markDirty_overwrites_witness:
  "findIndex (\<lambda>b. bid b = ''b1'')
     (buffers (example_state [(example_buffer ''b1'' ''/a.ts'' ''x'')\<lparr>isDirty := True\<rparr>] (Some ''b1'')))
     = Some 0 \<and>
   isDirty (buffers (example_state [(example_buffer ''b1'' ''/a.ts'' ''x'')\<lparr>isDirty := True\<rparr>]
     (Some ''b1'')) ! 0) \<and>
   \<not> isDirty (buffers (updateBufferContent ''b1'' ''from disk'' False None
     (example_state [(example_buffer ''b1'' ''/a.ts'' ''x'')\<lparr>isDirty := True\<rparr>] (Some ''b1''))) ! 0)"
proof -
  let ?s = "example_state [(example_buffer ''b1'' ''/a.ts'' ''x'')\<lparr>isDirty := True\<rparr>] (Some ''b1'')"
  have k: "findIndex (\<lambda>b. bid b = ''b1'') (buffers ?s) = Some 0"
    by (simp add: example_state_def example_buffer_def)
  have d: "isDirty (buffers ?s ! 0)"
    by (simp add: example_state_def example_buffer_def)
  have n: "(0::nat) < length (buffers ?s)"
    by (simp add: example_state_def)
  have v: "\<not> isVirtual (buffers ?s ! 0)" "content (buffers ?s ! 0) \<noteq> ''from disk''"
    by (simp_all add: example_state_def example_buffer_def)
  from updateBufferContent_markDirty_overwrites[OF k, where c = "''from disk''" and dd = None and markDirty = False] n
  have "isDirty (buffers (updateBufferContent ''b1'' ''from disk'' False None ?s) ! 0) =
        (if (0::nat) = 0 \<and> \<not> isVirtual (buffers ?s ! 0) \<and>
            (content (buffers ?s ! 0) \<noteq> ''from disk'' \<or> (None :: diff_data option) \<noteq> None)
         then False else isDirty (buffers ?s ! 0))"
    by blast
  with v have "\<not> isDirty (buffers (updateBufferContent ''b1'' ''from disk'' False None ?s) ! 0)"
    by simp
  with k d show ?thesis by simp
qed

section \<open>Opening a path that is already open\<close>

lemma find_path_activated:
  "find (\<lambda>b. path b = p) (map (\<lambda>b. b\<lparr>isActive := (bid b = i)\<rparr>) bs)
     = map_option (\<lambda>b. b\<lparr>isActive := (bid b = i)\<rparr>) (find (\<lambda>b. path b = p) bs)"
  by (induction bs) auto

lemma openBuffer_existing:
  assumes "find (\<lambda>b. path b = p) (buffers s) = Some e"
  shows "openBuffer env p nm c isImg isSql isDf isVirt dd s =
           Inr (bid e,
                s\<lparr>activeBufferId := Some (bid e),
                  buffers := map (\<lambda>b. b\<lparr>isActive := (bid b = bid e)\<rparr>) (buffers s)\<rparr>)"
  using assms by (simp add: openBuffer_def)

text \<open>
  C2. If a buffer with path \<open>p\<close> is open (\<open>e\<close> is the first such buffer in list
  order), \<open>openBuffer(p, ...)\<close> returns the id of \<open>e\<close>, the active id becomes that id,
  \<open>e\<close> is flagged active, no buffer is added or removed (count, paths and ids of the
  list are unchanged), and nothing but the active flags and the active id changes.
\<close>

theorem openBuffer_existing_focus:
  assumes e: "find (\<lambda>b. path b = p) (buffers s) = Some e"
  shows "(case openBuffer env p nm c isImg isSql isDf isVirt dd s of
            Inl err \<Rightarrow> False
          | Inr (r, s1) \<Rightarrow>
              r = bid e \<and>
              activeBufferId s1 = Some (bid e) \<and>
              find (\<lambda>b. path b = p) (buffers s1) = Some (e\<lparr>isActive := True\<rparr>) \<and>
              length (buffers s1) = length (buffers s) \<and>
              map path (buffers s1) = map path (buffers s) \<and>
              map bid (buffers s1) = map bid (buffers s) \<and>
              s1 = s\<lparr>activeBufferId := Some (bid e),
                     buffers := map (\<lambda>b. b\<lparr>isActive := (bid b = bid e)\<rparr>) (buffers s)\<rparr>)"
  using e by (simp add: openBuffer_existing[OF e] find_path_activated comp_def)

text \<open>
  Hence a call of \<open>openBuffer\<close> that returns an id, followed by a second call with the
  same path, returns the same id again and leaves the buffer count unchanged.
\<close>

lemma openBuffer_twice:
  assumes "openBuffer env p nm c isImg isSql isDf isVirt dd s = Inr (r, s1)"
  shows "\<exists>s2. openBuffer env2 p nm2 c2 isImg2 isSql2 isDf2 isVirt2 dd2 s1 = Inr (r, s2) \<and>
           length (buffers s2) = length (buffers s1)"
proof (cases "find (\<lambda>b. path b = p) (buffers s)")
  case (Some e)
  from openBuffer_existing[OF Some, of env nm c isImg isSql isDf isVirt dd] assms Some
  have r: "r = bid e" and f1: "find (\<lambda>b. path b = p) (buffers s1) = Some (e\<lparr>isActive := True\<rparr>)"
    by (auto simp: find_path_activated)
  from openBuffer_existing[OF f1, of env2 nm2 c2 isImg2 isSql2 isDf2 isVirt2 dd2] r
  show ?thesis by simp
next
  case None
  have fa: "find P (xs @ [x]) = (case find P xs of None \<Rightarrow> (if P x then Some x else None) | Some y \<Rightarrow> Some y)" for P xs and x :: buffer
    by (induction xs) auto
  have fm: "find (\<lambda>b. path b = p) (map (\<lambda>b. b\<lparr>isActive := False\<rparr>) bs) = None"
    if "find (\<lambda>b. path b = p) bs = None" for bs
    using that by (induction bs) (auto split: if_splits)
  have ff: "find (\<lambda>b. path b = p) (filter Q bs) = None" if "find (\<lambda>b. path b = p) bs = None" for bs Q
    using that by (induction bs) (auto split: if_splits)
  from assms None obtain nb where
    nb: "buffers s1 = map (\<lambda>b. b\<lparr>isActive := False\<rparr>) nb @
           [\<lparr>bid = r, path = p, name = nm, content = c,
                       isDirty = False, isVirtual = isVirt, isPinned = False, isImage = isImg,
                       isSQLite = isSql, isDiff = isDf, isActive = True,
                       language = detectLanguageFromFileName env nm, diffData = dd,
                       tokens = []\<rparr>]"
    and ev: "evictLru (buffers s) (maxOpenTabs s) = Inr nb"
    by (auto simp: openBuffer_def Let_def split: sum.splits)
  from ev None have "find (\<lambda>b. path b = p) nb = None"
    by (auto simp: evictLru_def ff split: if_splits list.splits)
  then have "\<exists>e. find (\<lambda>b. path b = p) (buffers s1) = Some e \<and> bid e = r"
    by (simp add: nb fa fm)
  then obtain e where f1: "find (\<lambda>b. path b = p) (buffers s1) = Some e" and r: "bid e = r" by blast
  from openBuffer_existing[OF f1, of env2 nm2 c2 isImg2 isSql2 isDf2 isVirt2 dd2] r
  show ?thesis by simp
qed

theorem openBuffer_existing_focus_witness:
  "find (\<lambda>b. path b = ''/a.ts'')
     (buffers (example_state
        [example_buffer ''b1'' ''/a.ts'' ''x'', (example_buffer ''b2'' ''/b.ts'' ''y'')\<lparr>isActive := True\<rparr>]
        (Some ''b2'')))
     = Some (example_buffer ''b1'' ''/a.ts'' ''x'') \<and>
   openBuffer (example_env 5) ''/a.ts'' ''a.ts'' ''z'' False False False False None
     (example_state
        [example_buffer ''b1'' ''/a.ts'' ''x'', (example_buffer ''b2'' ''/b.ts'' ''y'')\<lparr>isActive := True\<rparr>]
        (Some ''b2''))
     = Inr (''b1'',
            example_state
              [(example_buffer ''b1'' ''/a.ts'' ''x'')\<lparr>isActive := True\<rparr>, example_buffer ''b2'' ''/b.ts'' ''y'']
              (Some ''b1''))"
proof -
  let ?s = "example_state
        [example_buffer ''b1'' ''/a.ts'' ''x'', (example_buffer ''b2'' ''/b.ts'' ''y'')\<lparr>isActive := True\<rparr>]
        (Some ''b2'')"
  have f: "find (\<lambda>b. path b = ''/a.ts'') (buffers ?s) = Some (example_buffer ''b1'' ''/a.ts'' ''x'')"
    by (simp add: example_state_def example_buffer_def)
  have "openBuffer (example_env 5) ''/a.ts'' ''a.ts'' ''z'' False False False False None ?s =
        Inr (bid (example_buffer ''b1'' ''/a.ts'' ''x''),
             ?s\<lparr>activeBufferId := Some (bid (example_buffer ''b1'' ''/a.ts'' ''x'')),
                buffers := map (\<lambda>b. b\<lparr>isActive := (bid b = bid (example_buffer ''b1'' ''/a.ts'' ''x''))\<rparr>)
                             (buffers ?s)\<rparr>)"
    using openBuffer_existing_focus[OF f, where env = "example_env 5" and nm = "''a.ts''"
        and c = "''z''" and isImg = False and isSql = False and isDf = False and isVirt = False
        and dd = None]
    by (auto split: sum.splits)
  then show ?thesis
    using f by (simp add: example_state_def example_buffer_def)
qed

section \<open>Dirty-gated close\<close>

lemma closeBufferForce_removes: "i \<notin> set (map bid (buffers (closeBufferForce K i s)))"
proof (cases "findIndex (\<lambda>b. bid b = i) (buffers s)")
  case None
  then have "closeBufferForce K i s = s"
    by (simp add: closeBufferForce_def)
  moreover from None have "\<forall>x\<in>set (buffers s). bid x \<noteq> i"
    by (simp add: findIndex_None)
  ultimately show ?thesis by auto
next
  case (Some k)
  then show ?thesis
    by (auto simp: closeBufferForce_def Let_def)
qed

text \<open>
  C4, as amended. Let \<open>id\<close> name the buffer \<open>b\<close>. If \<open>b\<close> is dirty, \<open>closeBuffer(id)\<close>
  only records the pending close \<open>{bufferId: id, type: "single"}\<close> and leaves the
  buffer list as it is; \<open>confirmCloseWithoutSaving\<close> then clears the pending close and
  force-closes \<open>id\<close>; and \<open>cancelPendingClose\<close> gives back the state before the close
  attempt provided that no close was pending in that state. If \<open>b\<close> is not dirty,
  \<open>closeBuffer\<close> is \<open>closeBufferForce\<close>.
\<close>

theorem closeBuffer_dirty_gate:
  assumes b: "find (\<lambda>b. bid b = i) (buffers s) = Some b"
  shows "(isDirty b \<longrightarrow>
            closeBuffer K i s =
              s\<lparr>pendingClose := Some \<lparr>bufferId = i, pc_type = CloseSingle, keepBufferId = None\<rparr>\<rparr> \<and>
            buffers (closeBuffer K i s) = buffers s \<and>
            (pendingClose s = None \<longrightarrow> cancelPendingClose (closeBuffer K i s) = s) \<and>
            confirmCloseWithoutSaving K (closeBuffer K i s) =
              closeBufferForce K i (s\<lparr>pendingClose := None\<rparr>) \<and>
            pendingClose (confirmCloseWithoutSaving K (closeBuffer K i s)) = None \<and>
            i \<notin> set (map bid (buffers (confirmCloseWithoutSaving K (closeBuffer K i s))))) \<and>
         (\<not> isDirty b \<longrightarrow> closeBuffer K i s = closeBufferForce K i s)"
proof -
  have pc: "pendingClose (closeBufferForce K i t) = pendingClose t" for t
    by (simp add: closeBufferForce_def Let_def split: option.splits)
  have c: "isDirty b \<Longrightarrow> closeBuffer K i s =
      s\<lparr>pendingClose := Some \<lparr>bufferId = i, pc_type = CloseSingle, keepBufferId = None\<rparr>\<rparr>"
    using b by (simp add: closeBuffer_def)
  have conf: "isDirty b \<Longrightarrow> confirmCloseWithoutSaving K (closeBuffer K i s) =
      closeBufferForce K i (s\<lparr>pendingClose := None\<rparr>)"
    by (simp add: c confirmCloseWithoutSaving_def)
  have clean: "\<not> isDirty b \<Longrightarrow> closeBuffer K i s = closeBufferForce K i s"
    using b by (simp add: closeBuffer_def)
  show ?thesis
    using c conf clean closeBufferForce_removes[of i K "s\<lparr>pendingClose := None\<rparr>"]
    by (auto simp: cancelPendingClose_def pc)
qed

text \<open>
  Without the proviso the round trip fails: the store holds one pending close, which
  \<open>closeBuffer\<close> overwrites and \<open>cancelPendingClose\<close> clears. Here a close-all was
  pending before the close attempt and is gone after the cancel.
\<close>

theorem closeBuffer_cancel_not_roundtrip:
  "cancelPendingClose
     (closeBuffer example_K ''b1''
        ((example_state [(example_buffer ''b1'' ''/a.ts'' ''x'')\<lparr>isDirty := True\<rparr>] (Some ''b1''))
           \<lparr>pendingClose := Some \<lparr>bufferId = ''b1'', pc_type = CloseAll, keepBufferId = None\<rparr>\<rparr>))
   \<noteq> (example_state [(example_buffer ''b1'' ''/a.ts'' ''x'')\<lparr>isDirty := True\<rparr>] (Some ''b1''))
           \<lparr>pendingClose := Some \<lparr>bufferId = ''b1'', pc_type = CloseAll, keepBufferId = None\<rparr>\<rparr>"
  by (simp add: cancelPendingClose_def closeBuffer_def example_state_def example_buffer_def)

theorem closeBuffer_dirty_gate_witness:
  "find (\<lambda>b. bid b = ''b1'')
     (buffers (example_state [(example_buffer ''b1'' ''/a.ts'' ''x'')\<lparr>isDirty := True\<rparr>] (Some ''b1'')))
     = Some ((example_buffer ''b1'' ''/a.ts'' ''x'')\<lparr>isDirty := True\<rparr>) \<and>
   isDirty ((example_buffer ''b1'' ''/a.ts'' ''x'')\<lparr>isDirty := True\<rparr>) \<and>
   pendingClose (example_state [(example_buffer ''b1'' ''/a.ts'' ''x'')\<lparr>isDirty := True\<rparr>] (Some ''b1''))
     = None \<and>
   pendingClose (closeBuffer example_K ''b1''
      (example_state [(example_buffer ''b1'' ''/a.ts'' ''x'')\<lparr>isDirty := True\<rparr>] (Some ''b1'')))
     = Some \<lparr>bufferId = ''b1'', pc_type = CloseSingle, keepBufferId = None\<rparr> \<and>
   cancelPendingClose (closeBuffer example_K ''b1''
      (example_state [(example_buffer ''b1'' ''/a.ts'' ''x'')\<lparr>isDirty := True\<rparr>] (Some ''b1'')))
     = example_state [(example_buffer ''b1'' ''/a.ts'' ''x'')\<lparr>isDirty := True\<rparr>] (Some ''b1'') \<and>
   ''b1'' \<notin> set (map bid (buffers (confirmCloseWithoutSaving example_K (closeBuffer example_K ''b1''
      (example_state [(example_buffer ''b1'' ''/a.ts'' ''x'')\<lparr>isDirty := True\<rparr>] (Some ''b1'')))))) \<and>
   find (\<lambda>b. bid b = ''b2'') (buffers (example_state [example_buffer ''b2'' ''/b.ts'' ''y''] (Some ''b2'')))
     = Some (example_buffer ''b2'' ''/b.ts'' ''y'') \<and>
   \<not> isDirty (example_buffer ''b2'' ''/b.ts'' ''y'') \<and>
   closeBuffer example_K ''b2'' (example_state [example_buffer ''b2'' ''/b.ts'' ''y''] (Some ''b2''))
     = closeBufferForce example_K ''b2'' (example_state [example_buffer ''b2'' ''/b.ts'' ''y''] (Some ''b2''))"
proof -
  let ?d = "(example_buffer ''b1'' ''/a.ts'' ''x'')\<lparr>isDirty := True\<rparr>"
  let ?s = "example_state [?d] (Some ''b1'')"
  let ?c = "example_buffer ''b2'' ''/b.ts'' ''y''"
  let ?t = "example_state [?c] (Some ''b2'')"
  have f1: "find (\<lambda>b. bid b = ''b1'') (buffers ?s) = Some ?d"
    by (simp add: example_state_def example_buffer_def)
  have d1: "isDirty ?d" by simp
  have p1: "pendingClose ?s = None" by (simp add: example_state_def)
  have f2: "find (\<lambda>b. bid b = ''b2'') (buffers ?t) = Some ?c"
    by (simp add: example_state_def example_buffer_def)
  have d2: "\<not> isDirty ?c" by (simp add: example_buffer_def)
  note g1 = closeBuffer_dirty_gate[OF f1, of example_K]
  note g2 = closeBuffer_dirty_gate[OF f2, of example_K]
  from g1 d1 have a: "closeBuffer example_K ''b1'' ?s =
      ?s\<lparr>pendingClose := Some \<lparr>bufferId = ''b1'', pc_type = CloseSingle, keepBufferId = None\<rparr>\<rparr>"
    by blast
  from g1 d1 p1 have b: "cancelPendingClose (closeBuffer example_K ''b1'' ?s) = ?s"
    by blast
  from g1 d1 have c: "''b1'' \<notin> set (map bid (buffers (confirmCloseWithoutSaving example_K
      (closeBuffer example_K ''b1'' ?s))))"
    by blast
  from g2 d2 have e: "closeBuffer example_K ''b2'' ?t = closeBufferForce example_K ''b2'' ?t"
    by blast
  from a have a': "pendingClose (closeBuffer example_K ''b1'' ?s) =
      Some \<lparr>bufferId = ''b1'', pc_type = CloseSingle, keepBufferId = None\<rparr>"
    by simp
  from f1 d1 p1 a' b c f2 d2 e show ?thesis by blast
qed

section \<open>LSP client: degrade to empty\<close>

text \<open>
  C6. Whenever the host call is rejected, \<open>getCompletions\<close> resolves to the empty
  list and \<open>getHover\<close> to null; and whatever the host does, neither of the two is ever
  rejected.
\<close>

theorem lsp_degrade_to_empty:
  "(hostC filePath line character = Rejected e \<longrightarrow>
      getCompletions hostC filePath line character = Resolved []) \<and>
   (hostH filePath line character = Rejected e \<longrightarrow>
      getHover hostH filePath line character = Resolved None) \<and>
   getCompletions hostC filePath line character \<noteq> Rejected e' \<and>
   getHover hostH filePath line character \<noteq> Rejected e'"
  by (auto simp: getCompletions_def getHover_def split: outcome.splits option.splits)

theorem lsp_degrade_to_empty_witness:
  "(\<lambda>f l c. Rejected ''no language server running'' :: completion_item list option outcome)
      ''/w/a.ts'' 3 7 = Rejected ''no language server running'' \<and>
   getCompletions (\<lambda>f l c. Rejected ''no language server running'') ''/w/a.ts'' 3 7 = Resolved [] \<and>
   (\<lambda>f l c. Rejected ''no language server running'' :: hover option outcome)
      ''/w/a.ts'' 3 7 = Rejected ''no language server running'' \<and>
   getHover (\<lambda>f l c. Rejected ''no language server running'') ''/w/a.ts'' 3 7 = Resolved None"
  using lsp_degrade_to_empty[where hostC = "\<lambda>f l c. Rejected ''no language server running''"
      and hostH = "\<lambda>f l c. Rejected ''no language server running''"
      and filePath = "''/w/a.ts''" and line = 3 and character = 7
      and e = "''no language server running''"]
  by simp

section \<open>LSP client: overlapping session starts\<close>

lemma startForFile_sequential_spawns_once:
  "startForFile_alone (Resolved ()) example_registry ''/w/a.ts'' ''/w''
     (startForFile_alone (Resolved ()) example_registry ''/w/a.ts'' ''/w''
        \<lparr>activeLanguageServers = [], invoked = []\<rparr>)
   = \<lparr>activeLanguageServers = [''/w:typescript''],
      invoked = [LspStartForFileCmd ''/w/a.ts'' ''/w'' (Some ''/extensions/typescript/server'')
                   (Some [''--stdio''])]\<rparr>"
  by (simp add: startForFile_alone_def startForFile_begin_def startForFile_resume_def
      example_registry_def orUndefined_def serverKey_def setAdd_def)

text \<open>
  C7. Two calls of \<open>startForFile\<close> for the same file and workspace, the second begun
  before the host has answered the first: both pass the already-running check, because
  the key is only added after the await, and the host is asked to start the server
  twice. One session key is recorded.
\<close>

theorem startForFile_overlapped_spawns_twice:
  "startForFile_overlapped example_registry ''/w/a.ts'' ''/w''
     \<lparr>activeLanguageServers = [], invoked = []\<rparr>
   = \<lparr>activeLanguageServers = [''/w:typescript''],
      invoked = [LspStartForFileCmd ''/w/a.ts'' ''/w'' (Some ''/extensions/typescript/server'')
                   (Some [''--stdio'']),
                 LspStartForFileCmd ''/w/a.ts'' ''/w'' (Some ''/extensions/typescript/server'')
                   (Some [''--stdio''])]\<rparr> \<and>
   spawnRequests (startForFile_overlapped example_registry ''/w/a.ts'' ''/w''
     \<lparr>activeLanguageServers = [], invoked = []\<rparr>) = 2"
  by (simp add: startForFile_overlapped_def startForFile_begin_def startForFile_resume_def
      example_registry_def orUndefined_def serverKey_def setAdd_def spawnRequests_def)

lemma startForFile_overlapped_general:
  assumes "getLspServerPath reg f = Some sp" "sp \<noteq> []" "getLanguageId reg f = Some l" "l \<noteq> []"
    and "serverKey w l \<notin> set (activeLanguageServers cl)"
  shows "spawnRequests (startForFile_overlapped reg f w cl) = spawnRequests cl + 2 \<and>
         activeLanguageServers (startForFile_overlapped reg f w cl)
           = activeLanguageServers cl @ [serverKey w l]"
  using assms
  by (simp add: startForFile_overlapped_def startForFile_begin_def startForFile_resume_def
      orUndefined_def setAdd_def spawnRequests_def)

section \<open>Extension resolution on open\<close>

lemma getExtensionForFile_examples:
  "getExtensionForFile example_store ''/w/src/App.TSX'' = Some (snd (availableExtensions example_store ! 0))"
  "getExtensionForFile example_store ''/w/src/main.rs'' = Some (snd (availableExtensions example_store ! 1))"
  "getExtensionForFile example_store ''/w/README.md'' = None"
  "getExtensionForFile example_store ''/w/Makefile'' = None"
  "getExtensionForFile example_store ''/w/odd.'' = None"
  by (simp_all add: getExtensionForFile_def example_store_def toLowerCase_def Let_def)

text \<open>
  C8. When \<open>openBuffer\<close> creates a buffer for a real file (not virtual, diff, image or
  sqlite), the calls it initiates are: the recent-files entry; then, from the extension
  check, nothing when no descriptor resolves for the path, an LSP start for the file
  when the resolved descriptor is installed (workspace: the root folder, or the path
  when none is open), and otherwise the install-needed event with the descriptor's id,
  its display name and the path, and no LSP start; then the session snapshot.
\<close>

theorem openBuffer_extension_gate:
  assumes "find (\<lambda>b. path b = p) (buffers s) = None"
    and "openBuffer env p nm c False False False False dd s = Inr (i, s1)"
  shows "emitted s1 =
     emitted s @ [AddRecentFile p nm] @
     (case getExtensionForFile (extensionStore env) p of
        None \<Rightarrow> []
      | Some x \<Rightarrow>
          if isExtensionInstalled (extensionStore env) (ext_id (manifest x))
          then [LspStartForFile p
                  (case rootFolderPath env of None \<Rightarrow> p | Some r \<Rightarrow> if r = [] then p else r)]
          else [InstallNeeded (ext_id (manifest x)) (displayName (manifest x)) p]) @
     [SaveSession (buffers s1) (activeBufferId s1)]"
  using assms
  by (auto simp: openBuffer_def extensionGate_def Let_def split: sum.splits option.splits)

theorem openBuffer_extension_gate_witness:
  "find (\<lambda>b. path b = ''/w/app.ts'') (buffers (initial example_K)) = None \<and>
   (case openBuffer (example_env 5) ''/w/app.ts'' ''app.ts'' ''x'' False False False False None
           (initial example_K) of
      Inl e \<Rightarrow> False
    | Inr (i, s1) \<Rightarrow>
        i = ''buffer__w_app_ts_5'' \<and>
        emitted s1 =
          [AddRecentFile ''/w/app.ts'' ''app.ts'',
           InstallNeeded ''athas.typescript'' ''TypeScript'' ''/w/app.ts'',
           SaveSession (buffers s1) (activeBufferId s1)])"
proof -
  let ?r = "openBuffer (example_env 5) ''/w/app.ts'' ''app.ts'' ''x'' False False False False None
           (initial example_K)"
  have f: "find (\<lambda>b. path b = ''/w/app.ts'') (buffers (initial example_K)) = None"
    by (simp add: initial_def)
  have "\<exists>s1. ?r = Inr (''buffer__w_app_ts_5'', s1)"
    by (simp add: openBuffer_def evictLru_def initial_def example_K_def example_env_def
        generateBufferId_def isAlnum_def show_nat.simps Let_def)
  then obtain s1 where r: "?r = Inr (''buffer__w_app_ts_5'', s1)" by blast
  have g: "getExtensionForFile (extensionStore (example_env 5)) ''/w/app.ts''
           = Some (snd (availableExtensions example_store ! 0))"
    by (simp add: getExtensionForFile_def example_store_def example_env_def toLowerCase_def Let_def)
  have n: "\<not> isExtensionInstalled (extensionStore (example_env 5))
             (ext_id (manifest (snd (availableExtensions example_store ! 0))))"
    by (simp add: isExtensionInstalled_def example_store_def example_env_def)
  have d: "ext_id (manifest (snd (availableExtensions example_store ! 0))) = ''athas.typescript''"
    "displayName (manifest (snd (availableExtensions example_store ! 0))) = ''TypeScript''"
    by (simp_all add: example_store_def)
  have "emitted s1 =
          [AddRecentFile ''/w/app.ts'' ''app.ts'',
           InstallNeeded ''athas.typescript'' ''TypeScript'' ''/w/app.ts'',
           SaveSession (buffers s1) (activeBufferId s1)]"
    using openBuffer_extension_gate[OF f r] g n d by (simp add: initial_def)
  with f r show ?thesis by simp
qed

lemma openBuffer_extension_gate_installed_example:
  "(case openBuffer (example_env 5) ''/w/main.rs'' ''main.rs'' ''x'' False False False False None
           (initial example_K) of
      Inl e \<Rightarrow> False
    | Inr (i, s1) \<Rightarrow>
        emitted s1 =
          [AddRecentFile ''/w/main.rs'' ''main.rs'',
           LspStartForFile ''/w/main.rs'' ''/w'',
           SaveSession (buffers s1) (activeBufferId s1)])"
  by (simp add: openBuffer_def evictLru_def initial_def example_K_def example_env_def
      extensionGate_def getExtensionForFile_def isExtensionInstalled_def example_store_def
      toLowerCase_def Let_def)

lemma openBuffer_virtual_skips_gate:
  assumes "find (\<lambda>b. path b = p) (buffers s) = None"
    and "openBuffer env p nm c isImg isSql isDf isVirt dd s = Inr (i, s1)"
    and "isImg \<or> isSql \<or> isDf \<or> isVirt"
  shows "emitted s1 = emitted s @ [SaveSession (buffers s1) (activeBufferId s1)]"
  using assms
  by (auto simp: openBuffer_def Let_def split: sum.splits)

section \<open>Eviction and the close bookkeeping\<close>

lemma openBuffer_new_buffers:
  assumes "find (\<lambda>b. path b = p) (buffers s) = None"
    and "openBuffer env p nm c isImg isSql isDf isVirt dd s = Inr (i, s1)"
  shows "\<exists>nb. evictLru (buffers s) (maxOpenTabs s) = Inr nb \<and>
           i = generateBufferId p (now env) \<and>
           activeBufferId s1 = Some i \<and>
           buffers s1 = map (\<lambda>b. b\<lparr>isActive := False\<rparr>) nb @
             [\<lparr>bid = i, path = p, name = nm, content = c,
               isDirty = False, isVirtual = isVirt, isPinned = False, isImage = isImg,
               isSQLite = isSql, isDiff = isDf, isActive = True,
               language = detectLanguageFromFileName env nm, diffData = dd, tokens = []\<rparr>]"
  using assms by (auto simp: openBuffer_def Let_def split: sum.splits)

text \<open>
  C9, as amended. A call of \<open>openBuffer\<close> leaves the closed-buffer history as it is
  and initiates no LSP stop, so eviction does not make the evicted tab restorable: the
  entry that \<open>reopenClosedTab\<close> would reopen after the call is the entry it would have
  reopened before. When the call evicts (the path is new, the unpinned buffers have
  reached the limit and \<open>v\<close> is the first of them), every buffer with the id of \<open>v\<close> is
  dropped from the list directly and the new buffer is appended. \<open>closeBufferForce\<close>
  on a real buffer, in contrast, pushes the buffer's entry onto the history (cut to the
  configured length) and initiates the LSP stop for its path.
\<close>

theorem eviction_bypasses_close_bookkeeping:
  assumes "openBuffer env p nm c isImg isSql isDf isVirt dd s = Inr (i, s1)"
  shows "closedBuffersHistory s1 = closedBuffersHistory s \<and>
         reopenTarget s1 = reopenTarget s \<and>
         (\<forall>f. LspStopForFile f \<notin> set (drop (length (emitted s)) (emitted s1))) \<and>
         (\<forall>v rest. find (\<lambda>b. path b = p) (buffers s) = None \<and>
              maxOpenTabs s \<le> int (unpinnedCount s) \<and>
              filter (\<lambda>b. \<not> isPinned b) (buffers s) = v # rest \<longrightarrow>
            butlast (buffers s1) =
              map (\<lambda>b. b\<lparr>isActive := False\<rparr>) (filter (\<lambda>b. bid b \<noteq> bid v) (buffers s))) \<and>
         (\<forall>K j k. findIndex (\<lambda>b. bid b = j) (buffers s) = Some k \<and>
              \<not> isVirtual (buffers s ! k) \<and> \<not> isDiff (buffers s ! k) \<and>
              \<not> isImage (buffers s ! k) \<and> \<not> isSQLite (buffers s ! k) \<longrightarrow>
            closedBuffersHistory (closeBufferForce K j s) =
              take (MAX_CLOSED_BUFFERS_HISTORY K)
                (\<lparr>cb_path = path (buffers s ! k), cb_name = name (buffers s ! k),
                  cb_isPinned = isPinned (buffers s ! k)\<rparr> # closedBuffersHistory s) \<and>
            LspStopForFile (path (buffers s ! k))
              \<in> set (drop (length (emitted s)) (emitted (closeBufferForce K j s))))"
proof -
  have h: "closedBuffersHistory s1 = closedBuffersHistory s"
    using assms by (auto simp: openBuffer_def Let_def split: sum.splits option.splits)
  have e: "\<forall>f. LspStopForFile f \<notin> set (drop (length (emitted s)) (emitted s1))"
    using assms
    by (auto simp: openBuffer_def extensionGate_def Let_def
        split: sum.splits option.splits if_splits)
  have v: "\<forall>v rest. find (\<lambda>b. path b = p) (buffers s) = None \<and>
              maxOpenTabs s \<le> int (unpinnedCount s) \<and>
              filter (\<lambda>b. \<not> isPinned b) (buffers s) = v # rest \<longrightarrow>
            butlast (buffers s1) =
              map (\<lambda>b. b\<lparr>isActive := False\<rparr>) (filter (\<lambda>b. bid b \<noteq> bid v) (buffers s))"
  proof (intro allI impI, elim conjE)
    fix v rest
    assume n: "find (\<lambda>b. path b = p) (buffers s) = None"
      and m: "maxOpenTabs s \<le> int (unpinnedCount s)"
      and f: "filter (\<lambda>b. \<not> isPinned b) (buffers s) = v # rest"
    from openBuffer_new_buffers[OF n assms] obtain nb where
      nb: "evictLru (buffers s) (maxOpenTabs s) = Inr nb"
      and bs: "butlast (buffers s1) = map (\<lambda>b. b\<lparr>isActive := False\<rparr>) nb"
      by auto
    from nb m f show "butlast (buffers s1) =
        map (\<lambda>b. b\<lparr>isActive := False\<rparr>) (filter (\<lambda>b. bid b \<noteq> bid v) (buffers s))"
      by (simp add: evictLru_def unpinnedCount_def bs)
  qed
  have c: "\<forall>K j k. findIndex (\<lambda>b. bid b = j) (buffers s) = Some k \<and>
              \<not> isVirtual (buffers s ! k) \<and> \<not> isDiff (buffers s ! k) \<and>
              \<not> isImage (buffers s ! k) \<and> \<not> isSQLite (buffers s ! k) \<longrightarrow>
            closedBuffersHistory (closeBufferForce K j s) =
              take (MAX_CLOSED_BUFFERS_HISTORY K)
                (\<lparr>cb_path = path (buffers s ! k), cb_name = name (buffers s ! k),
                  cb_isPinned = isPinned (buffers s ! k)\<rparr> # closedBuffersHistory s) \<and>
            LspStopForFile (path (buffers s ! k))
              \<in> set (drop (length (emitted s)) (emitted (closeBufferForce K j s)))"
    by (simp add: closeBufferForce_def Let_def)
  from h have t: "reopenTarget s1 = reopenTarget s"
    by (simp add: reopenTarget_def reopenClosedTab_begin_def split: list.splits)
  from h t e v c show ?thesis by blast
qed

theorem eviction_bypasses_close_bookkeeping_witness:
  "(case openBuffer (example_env 9) ''/c'' ''c'' ''z'' False False False False None
          (example_state [example_buffer ''a1'' ''/a'' ''x'',
                          (example_buffer ''b1'' ''/b'' ''y'')\<lparr>isActive := True\<rparr>] (Some ''b1'')) of
      Inl e \<Rightarrow> False
    | Inr (i, s1) \<Rightarrow>
        map path (buffers s1) = [''/b'', ''/c''] \<and>
        butlast (buffers s1) = [example_buffer ''b1'' ''/b'' ''y''] \<and>
        closedBuffersHistory s1 = [] \<and>
        reopenTarget s1 = None \<and>
        emitted s1 = [AddRecentFile ''/c'' ''c'', SaveSession (buffers s1) (activeBufferId s1)]) \<and>
   closedBuffersHistory (closeBufferForce example_K ''a1''
          (example_state [example_buffer ''a1'' ''/a'' ''x'',
                          (example_buffer ''b1'' ''/b'' ''y'')\<lparr>isActive := True\<rparr>] (Some ''b1'')))
     = [\<lparr>cb_path = ''/a'', cb_name = ''/a'', cb_isPinned = False\<rparr>] \<and>
   LspStopForFile ''/a'' \<in> set (emitted (closeBufferForce example_K ''a1''
          (example_state [example_buffer ''a1'' ''/a'' ''x'',
                          (example_buffer ''b1'' ''/b'' ''y'')\<lparr>isActive := True\<rparr>] (Some ''b1''))))"
proof -
  let ?s = "example_state [example_buffer ''a1'' ''/a'' ''x'',
                          (example_buffer ''b1'' ''/b'' ''y'')\<lparr>isActive := True\<rparr>] (Some ''b1'')"
  let ?r = "openBuffer (example_env 9) ''/c'' ''c'' ''z'' False False False False None ?s"
  have "\<exists>s1. ?r = Inr (''buffer__c_9'', s1) \<and> map path (buffers s1) = [''/b'', ''/c''] \<and>
          emitted s1 = [AddRecentFile ''/c'' ''c'', SaveSession (buffers s1) (activeBufferId s1)]"
    by (simp add: openBuffer_def evictLru_def example_state_def example_buffer_def example_env_def
        generateBufferId_def isAlnum_def show_nat.simps Let_def extensionGate_def
        getExtensionForFile_def example_store_def toLowerCase_def)
  then obtain s1 where r: "?r = Inr (''buffer__c_9'', s1)"
    and p: "map path (buffers s1) = [''/b'', ''/c'']"
    and em: "emitted s1 = [AddRecentFile ''/c'' ''c'', SaveSession (buffers s1) (activeBufferId s1)]"
    by (elim exE conjE)
  note t = eviction_bypasses_close_bookkeeping[OF r]
  have hs: "closedBuffersHistory ?s = []" "reopenTarget ?s = None" "emitted ?s = []"
    by (simp_all add: example_state_def reopenTarget_def reopenClosedTab_begin_def)
  from t hs have h1: "closedBuffersHistory s1 = []" "reopenTarget s1 = None"
    by simp_all
  have k: "findIndex (\<lambda>b. bid b = ''a1'') (buffers ?s) = Some 0 \<and>
        \<not> isVirtual (buffers ?s ! 0) \<and> \<not> isDiff (buffers ?s ! 0) \<and>
        \<not> isImage (buffers ?s ! 0) \<and> \<not> isSQLite (buffers ?s ! 0)"
    by (simp add: example_state_def example_buffer_def)
  from t have "findIndex (\<lambda>b. bid b = ''a1'') (buffers ?s) = Some 0 \<and>
        \<not> isVirtual (buffers ?s ! 0) \<and> \<not> isDiff (buffers ?s ! 0) \<and>
        \<not> isImage (buffers ?s ! 0) \<and> \<not> isSQLite (buffers ?s ! 0) \<longrightarrow>
      closedBuffersHistory (closeBufferForce example_K ''a1'' ?s) =
        take (MAX_CLOSED_BUFFERS_HISTORY example_K)
          (\<lparr>cb_path = path (buffers ?s ! 0), cb_name = name (buffers ?s ! 0),
            cb_isPinned = isPinned (buffers ?s ! 0)\<rparr> # closedBuffersHistory ?s) \<and>
      LspStopForFile (path (buffers ?s ! 0))
        \<in> set (drop (length (emitted ?s)) (emitted (closeBufferForce example_K ''a1'' ?s)))"
    by blast
  with k have c: "closedBuffersHistory (closeBufferForce example_K ''a1'' ?s) =
        take (MAX_CLOSED_BUFFERS_HISTORY example_K)
          (\<lparr>cb_path = path (buffers ?s ! 0), cb_name = name (buffers ?s ! 0),
            cb_isPinned = isPinned (buffers ?s ! 0)\<rparr> # closedBuffersHistory ?s)"
    and l: "LspStopForFile (path (buffers ?s ! 0))
        \<in> set (drop (length (emitted ?s)) (emitted (closeBufferForce example_K ''a1'' ?s)))"
    by blast+
  have b0: "path (buffers ?s ! 0) = ''/a''" "name (buffers ?s ! 0) = ''/a''"
    "\<not> isPinned (buffers ?s ! 0)"
    by (simp_all add: example_state_def example_buffer_def)
  from c b0 hs have c': "closedBuffersHistory (closeBufferForce example_K ''a1'' ?s)
     = [\<lparr>cb_path = ''/a'', cb_name = ''/a'', cb_isPinned = False\<rparr>]"
    by (simp add: example_K_def)
  from l b0 hs have l': "LspStopForFile ''/a'' \<in> set (emitted (closeBufferForce example_K ''a1'' ?s))"
    by simp
  have fs: "find (\<lambda>b. path b = ''/c'') (buffers ?s) = None \<and>
      maxOpenTabs ?s \<le> int (unpinnedCount ?s) \<and>
      filter (\<lambda>b. \<not> isPinned b) (buffers ?s) =
        example_buffer ''a1'' ''/a'' ''x'' # [(example_buffer ''b1'' ''/b'' ''y'')\<lparr>isActive := True\<rparr>]"
    by (simp add: example_state_def example_buffer_def unpinnedCount_def)
  from t have "find (\<lambda>b. path b = ''/c'') (buffers ?s) = None \<and>
      maxOpenTabs ?s \<le> int (unpinnedCount ?s) \<and>
      filter (\<lambda>b. \<not> isPinned b) (buffers ?s) =
        example_buffer ''a1'' ''/a'' ''x'' # [(example_buffer ''b1'' ''/b'' ''y'')\<lparr>isActive := True\<rparr>] \<longrightarrow>
      butlast (buffers s1) =
        map (\<lambda>b. b\<lparr>isActive := False\<rparr>)
          (filter (\<lambda>b. bid b \<noteq> bid (example_buffer ''a1'' ''/a'' ''x'')) (buffers ?s))"
    by blast
  with fs have "butlast (buffers s1) =
        map (\<lambda>b. b\<lparr>isActive := False\<rparr>)
          (filter (\<lambda>b. bid b \<noteq> bid (example_buffer ''a1'' ''/a'' ''x'')) (buffers ?s))"
    by blast
  then have bl: "butlast (buffers s1) = [example_buffer ''b1'' ''/b'' ''y'']"
    by (simp add: example_state_def example_buffer_def)
  from r p bl em h1 c' l' show ?thesis by simp
qed

text \<open>
  Read without that restriction, "an evicted tab can never be restored by
  \<open>reopenClosedTab\<close>" fails: the history is not tied to the open buffers, so the path
  of an evicted buffer can be in it from an earlier close. Below, \<open>/a\<close> is opened,
  force-closed and opened again, \<open>/b\<close> is opened, and opening \<open>/c\<close> (limit 2) evicts
  \<open>/a\<close>; \<open>reopenClosedTab\<close> then reopens \<open>/a\<close>.
\<close>

theorem evicted_tab_restored_after_earlier_close:
  "(case run example_K
          [OpenBuffer (example_env 1) ''/a'' ''a'' ''x'' False False False False None,
           CloseBufferForce ''buffer__a_1'',
           OpenBuffer (example_env 2) ''/a'' ''a'' ''x'' False False False False None,
           OpenBuffer (example_env 3) ''/b'' ''b'' ''y'' False False False False None]
          (initial example_K) of
      Inl e \<Rightarrow> False
    | Inr s \<Rightarrow>
        map path (buffers s) = [''/a'', ''/b''] \<and>
        (case openBuffer (example_env 4) ''/c'' ''c'' ''z'' False False False False None s of
           Inl e \<Rightarrow> False
         | Inr (i, s1) \<Rightarrow>
             map path (buffers s1) = [''/b'', ''/c''] \<and>
             reopenTarget s1 = Some \<lparr>cb_path = ''/a'', cb_name = ''a'', cb_isPinned = False\<rparr> \<and>
             map path (buffers (reopenClosedTab_resume (example_env 5)
                 \<lparr>cb_path = ''/a'', cb_name = ''a'', cb_isPinned = False\<rparr> ''x''
                 (snd (reopenClosedTab_begin s1)))) = [''/c'', ''/a'']))"
  by (simp add: openBuffer_def evictLru_def closeBufferForce_def initial_def example_K_def
      example_env_def generateBufferId_def isAlnum_def show_nat.simps Let_def
      reopenTarget_def reopenClosedTab_begin_def reopenClosedTab_resume_def)


section \<open>The eviction bound\<close>

lemma filter_other_ids_remove1:
  "distinct (map bid bs) \<Longrightarrow> v \<in> set bs \<Longrightarrow> filter (\<lambda>b. bid b \<noteq> bid v) bs = remove1 v bs"
proof (induction bs)
  case Nil
  then show ?case by simp
next
  case (Cons a bs)
  show ?case
  proof (cases "a = v")
    case True
    with Cons.prems have "bid v \<notin> set (map bid bs)" by simp
    then have "\<forall>b\<in>set bs. bid b \<noteq> bid v" by (metis imageI set_map)
    then have "filter (\<lambda>b. bid b \<noteq> bid v) bs = bs" by (simp add: filter_id_conv)
    with True show ?thesis by simp
  next
    case False
    with Cons.prems have "v \<in> set bs" "bid a \<noteq> bid v" by auto
    with Cons show ?thesis using False by simp
  qed
qed

lemma length_filter_remove1:
  "v \<in> set bs \<Longrightarrow> P v \<Longrightarrow> Suc (length (filter P (remove1 v bs))) = length (filter P bs)"
  by (induction bs) auto

lemma length_filter_remove1_other:
  "\<not> P v \<Longrightarrow> length (filter P (remove1 v bs)) = length (filter P bs)"
  by (induction bs) auto

lemma filter_unpinned_deactivated:
  "filter (\<lambda>b. \<not> isPinned b) (map (\<lambda>b. b\<lparr>isActive := False\<rparr>) bs)
     = map (\<lambda>b. b\<lparr>isActive := False\<rparr>) (filter (\<lambda>b. \<not> isPinned b) bs)"
  by (induction bs) auto

lemma evictLru_distinct:
  assumes d: "distinct (map bid bs)" and e: "evictLru bs m = Inr nb"
    and u: "filter (\<lambda>b. \<not> isPinned b) bs \<noteq> [] \<or> 0 < m"
  shows "(m \<le> int (length (filter (\<lambda>b. \<not> isPinned b) bs)) \<longrightarrow>
            (case filter (\<lambda>b. \<not> isPinned b) bs of
               [] \<Rightarrow> False
             | v # rest \<Rightarrow> nb = remove1 v bs \<and>
                 Suc (length (filter (\<lambda>b. \<not> isPinned b) nb)) = length (filter (\<lambda>b. \<not> isPinned b) bs))) \<and>
         (int (length (filter (\<lambda>b. \<not> isPinned b) bs)) < m \<longrightarrow> nb = bs) \<and>
         (\<forall>b\<in>set bs. isPinned b \<longrightarrow> b \<in> set nb)"
proof (cases "m \<le> int (length (filter (\<lambda>b. \<not> isPinned b) bs))")
  case False
  with e show ?thesis by (simp add: evictLru_def)
next
  case True
  with u have "filter (\<lambda>b. \<not> isPinned b) bs \<noteq> []" by auto
  with True e obtain v rest where f: "filter (\<lambda>b. \<not> isPinned b) bs = v # rest"
    and nb: "nb = filter (\<lambda>b. bid b \<noteq> bid v) bs"
    by (auto simp: evictLru_def split: list.splits)
  from f have "v \<in> set (filter (\<lambda>b. \<not> isPinned b) bs)" by simp
  then have v: "v \<in> set bs" "\<not> isPinned v" by auto
  from filter_other_ids_remove1[OF d v(1)] nb have r: "nb = remove1 v bs" by simp
  from length_filter_remove1[of v bs "\<lambda>b. \<not> isPinned b"] v
  have l: "Suc (length (filter (\<lambda>b. \<not> isPinned b) nb)) = length (filter (\<lambda>b. \<not> isPinned b) bs)"
    by (simp add: r)
  have "b \<in> set nb" if "b \<in> set bs" "isPinned b" for b
  proof -
    from that v(2) have "b \<noteq> v" by auto
    with that(1) show ?thesis by (simp add: r in_set_remove1)
  qed
  then have "\<forall>b\<in>set bs. isPinned b \<longrightarrow> b \<in> set nb" by blast
  with True f r l show ?thesis by simp
qed

text \<open>
  What eviction does when the buffer ids are pairwise distinct and either an unpinned
  buffer is open or the limit is positive. A call of \<open>openBuffer\<close> that creates a
  buffer for a path not yet open removes, if the unpinned buffers have reached
  \<open>maxOpenTabs\<close>, exactly one buffer, the first unpinned one in list order, and the
  unpinned count after the call is the count before it; otherwise no buffer is removed
  and the count grows by one. Either way the count after the call is at most the larger
  of the limit and the count before, every pinned buffer is still open, and the new
  buffer is the last of the list and unpinned.
\<close>

lemma openBuffer_eviction_distinct_ids:
  assumes d: "distinct (map bid (buffers s))"
    and n: "find (\<lambda>b. path b = p) (buffers s) = None"
    and o: "openBuffer env p nm c isImg isSql isDf isVirt dd s = Inr (i, s1)"
    and u: "filter (\<lambda>b. \<not> isPinned b) (buffers s) \<noteq> [] \<or> 0 < maxOpenTabs s"
  shows "(maxOpenTabs s \<le> int (unpinnedCount s) \<longrightarrow>
            (case filter (\<lambda>b. \<not> isPinned b) (buffers s) of
               [] \<Rightarrow> False
             | v # rest \<Rightarrow>
                 butlast (buffers s1) = map (\<lambda>b. b\<lparr>isActive := False\<rparr>) (remove1 v (buffers s))) \<and>
            unpinnedCount s1 = unpinnedCount s) \<and>
         (int (unpinnedCount s) < maxOpenTabs s \<longrightarrow>
            butlast (buffers s1) = map (\<lambda>b. b\<lparr>isActive := False\<rparr>) (buffers s) \<and>
            unpinnedCount s1 = unpinnedCount s + 1) \<and>
         int (unpinnedCount s1) \<le> max (int (unpinnedCount s)) (maxOpenTabs s) \<and>
         (\<forall>b\<in>set (buffers s). isPinned b \<longrightarrow> b\<lparr>isActive := False\<rparr> \<in> set (buffers s1)) \<and>
         buffers s1 \<noteq> [] \<and> bid (last (buffers s1)) = i \<and> path (last (buffers s1)) = p \<and>
         \<not> isPinned (last (buffers s1))"
proof -
  from openBuffer_new_buffers[OF n o] obtain nb nw where
    ev: "evictLru (buffers s) (maxOpenTabs s) = Inr nb"
    and bs: "buffers s1 = map (\<lambda>b. b\<lparr>isActive := False\<rparr>) nb @ [nw]"
    and nw: "bid nw = i" "path nw = p" "\<not> isPinned nw"
    by auto
  note E = evictLru_distinct[OF d ev u]
  have cnt: "unpinnedCount s1 = Suc (length (filter (\<lambda>b. \<not> isPinned b) nb))"
    using nw by (simp add: unpinnedCount_def bs filter_unpinned_deactivated)
  have A: "maxOpenTabs s \<le> int (unpinnedCount s) \<longrightarrow>
            (case filter (\<lambda>b. \<not> isPinned b) (buffers s) of
               [] \<Rightarrow> False
             | v # rest \<Rightarrow>
                 butlast (buffers s1) = map (\<lambda>b. b\<lparr>isActive := False\<rparr>) (remove1 v (buffers s))) \<and>
            unpinnedCount s1 = unpinnedCount s"
    using E cnt by (auto simp: unpinnedCount_def bs split: list.splits)
  have B: "int (unpinnedCount s) < maxOpenTabs s \<longrightarrow>
            butlast (buffers s1) = map (\<lambda>b. b\<lparr>isActive := False\<rparr>) (buffers s) \<and>
            unpinnedCount s1 = unpinnedCount s + 1"
    using E cnt by (auto simp: unpinnedCount_def bs)
  from A B have C: "int (unpinnedCount s1) \<le> max (int (unpinnedCount s)) (maxOpenTabs s)"
    by (cases "maxOpenTabs s \<le> int (unpinnedCount s)") auto
  have D: "\<forall>b\<in>set (buffers s). isPinned b \<longrightarrow> b\<lparr>isActive := False\<rparr> \<in> set (buffers s1)"
    using E by (auto simp: bs)
  from A B C D nw show ?thesis by (simp add: bs)
qed

lemma openBuffer_eviction_distinct_ids_example:
  "distinct (map bid (buffers (example_state
      [(example_buffer ''a1'' ''/a'' ''x'')\<lparr>isPinned := True\<rparr>, example_buffer ''b1'' ''/b'' ''y'',
       (example_buffer ''c1'' ''/c'' ''z'')\<lparr>isActive := True\<rparr>] (Some ''c1'')))) \<and>
   find (\<lambda>b. path b = ''/d'') (buffers (example_state
      [(example_buffer ''a1'' ''/a'' ''x'')\<lparr>isPinned := True\<rparr>, example_buffer ''b1'' ''/b'' ''y'',
       (example_buffer ''c1'' ''/c'' ''z'')\<lparr>isActive := True\<rparr>] (Some ''c1''))) = None \<and>
   maxOpenTabs (example_state
      [(example_buffer ''a1'' ''/a'' ''x'')\<lparr>isPinned := True\<rparr>, example_buffer ''b1'' ''/b'' ''y'',
       (example_buffer ''c1'' ''/c'' ''z'')\<lparr>isActive := True\<rparr>] (Some ''c1''))
     \<le> int (unpinnedCount (example_state
      [(example_buffer ''a1'' ''/a'' ''x'')\<lparr>isPinned := True\<rparr>, example_buffer ''b1'' ''/b'' ''y'',
       (example_buffer ''c1'' ''/c'' ''z'')\<lparr>isActive := True\<rparr>] (Some ''c1''))) \<and>
   (case openBuffer (example_env 9) ''/d'' ''d'' ''w'' False False False False None
      (example_state
        [(example_buffer ''a1'' ''/a'' ''x'')\<lparr>isPinned := True\<rparr>, example_buffer ''b1'' ''/b'' ''y'',
         (example_buffer ''c1'' ''/c'' ''z'')\<lparr>isActive := True\<rparr>] (Some ''c1'')) of
      Inl e \<Rightarrow> False
    | Inr (i, s1) \<Rightarrow>
        map path (buffers s1) = [''/a'', ''/c'', ''/d''] \<and>
        unpinnedCount s1 = 2 \<and>
        (example_buffer ''a1'' ''/a'' ''x'')\<lparr>isPinned := True\<rparr> \<in> set (buffers s1))"
proof -
  let ?a = "(example_buffer ''a1'' ''/a'' ''x'')\<lparr>isPinned := True\<rparr>"
  let ?s = "example_state
        [?a, example_buffer ''b1'' ''/b'' ''y'',
         (example_buffer ''c1'' ''/c'' ''z'')\<lparr>isActive := True\<rparr>] (Some ''c1'')"
  let ?r = "openBuffer (example_env 9) ''/d'' ''d'' ''w'' False False False False None ?s"
  have d: "distinct (map bid (buffers ?s))"
    by (simp add: example_state_def example_buffer_def)
  have n: "find (\<lambda>b. path b = ''/d'') (buffers ?s) = None"
    by (simp add: example_state_def example_buffer_def)
  have u: "unpinnedCount ?s = 2" "maxOpenTabs ?s = 2"
    by (simp_all add: unpinnedCount_def example_state_def example_buffer_def)
  have "\<exists>s1. ?r = Inr (''buffer__d_9'', s1) \<and> map path (buffers s1) = [''/a'', ''/c'', ''/d'']"
    by (simp add: openBuffer_def evictLru_def example_state_def example_buffer_def example_env_def
        generateBufferId_def isAlnum_def show_nat.simps Let_def)
  then obtain s1 where r: "?r = Inr (''buffer__d_9'', s1)"
    and p: "map path (buffers s1) = [''/a'', ''/c'', ''/d'']"
    by (elim exE conjE)
  have x: "filter (\<lambda>b. \<not> isPinned b) (buffers ?s) \<noteq> [] \<or> 0 < maxOpenTabs ?s"
    by (simp add: example_state_def)
  note t = openBuffer_eviction_distinct_ids[OF d n r x]
  from t u have c: "unpinnedCount s1 = 2" by simp
  have "?a \<in> set (buffers ?s)" "isPinned ?a" "?a\<lparr>isActive := False\<rparr> = ?a"
    by (simp_all add: example_state_def example_buffer_def)
  with t have a: "?a \<in> set (buffers s1)" by metis
  from d n u r p c a show ?thesis by simp
qed

text \<open>
  C3. Eviction is to remove exactly one buffer, the first unpinned one, and never a
  pinned buffer. The code removes every buffer that has the id of the first unpinned
  buffer, and ids are not unique: an id is \<open>buffer_\<close>, the path with every character
  outside \<open>[a-zA-Z0-9]\<close> replaced by an underscore, and the clock value, so \<open>/a.b\<close> and
  \<open>/a_b\<close> opened within the same millisecond get the same id. In the run below the
  limit is 2, \<open>/a.b\<close> is pinned, \<open>/a_b\<close> and \<open>/c\<close> are unpinned, and opening \<open>/d\<close>
  removes two buffers, the pinned one among them.
\<close>

theorem openBuffer_eviction_shared_id:
  "(case run example_K
          [OpenBuffer (example_env 7) ''/a.b'' ''a.b'' ''x'' False False False False None,
           HandleTabPin ''buffer__a_b_7'',
           OpenBuffer (example_env 7) ''/a_b'' ''a_b'' ''y'' False False False False None,
           OpenBuffer (example_env 8) ''/c'' ''c'' ''z'' False False False False None]
          (initial example_K) of
      Inl e \<Rightarrow> False
    | Inr s \<Rightarrow>
        map path (buffers s) = [''/a.b'', ''/a_b'', ''/c''] \<and>
        map isPinned (buffers s) = [True, False, False] \<and>
        map bid (buffers s) = [''buffer__a_b_7'', ''buffer__a_b_7'', ''buffer__c_8''] \<and>
        maxOpenTabs s = 2 \<and>
        (case openBuffer (example_env 9) ''/d'' ''d'' ''w'' False False False False None s of
           Inl e \<Rightarrow> False
         | Inr (i, s1) \<Rightarrow> map path (buffers s1) = [''/c'', ''/d'']))"
  by (simp add: openBuffer_def evictLru_def handleTabPin_def updateFound_def initial_def
      example_K_def example_env_def generateBufferId_def isAlnum_def show_nat.simps Let_def)

text \<open>
  The code does not check that there is an unpinned buffer to take. With a limit of 0
  (or less) the limit counts as reached when no unpinned buffer is open: on the empty
  store the call then inserts the new buffer, so that one unpinned buffer is open
  against a limit of 0; on a store with pinned buffers only, it throws.
\<close>

lemma openBuffer_limit_zero_empty:
  "(case openBuffer (example_env 9) ''/d'' ''d'' ''w'' False False False False None
          (setMaxOpenTabs 0 (initial example_K)) of
      Inl e \<Rightarrow> False
    | Inr (i, s1) \<Rightarrow> map path (buffers s1) = [''/d''] \<and> unpinnedCount s1 = 1 \<and> maxOpenTabs s1 = 0)"
  by (simp add: openBuffer_def evictLru_def setMaxOpenTabs_def initial_def unpinnedCount_def
      Let_def)

lemma openBuffer_limit_zero_all_pinned_throws:
  "openBuffer (example_env 9) ''/d'' ''d'' ''w'' False False False False None
     (setMaxOpenTabs 0
        (example_state [(example_buffer ''a1'' ''/a'' ''x'')\<lparr>isPinned := True, isActive := True\<rparr>]
           (Some ''a1'')))
   = Inl TypeError"
  by (simp add: openBuffer_def evictLru_def setMaxOpenTabs_def example_state_def
      example_buffer_def)

section \<open>Active-buffer exclusivity\<close>

lemma filter_same_key_single:
  "distinct (map f xs) \<Longrightarrow> x \<in> set xs \<Longrightarrow> filter (\<lambda>y. f y = f x) xs = [x]"
proof (induction xs)
  case Nil
  then show ?case by simp
next
  case (Cons a xs)
  show ?case
  proof (cases "a = x")
    case True
    with Cons.prems have "f x \<notin> set (map f xs)" by simp
    then have "\<forall>y\<in>set xs. f y \<noteq> f x" by (metis imageI set_map)
    then have "filter (\<lambda>y. f y = f x) xs = []" by (simp add: filter_empty_conv)
    with True show ?thesis by simp
  next
    case False
    with Cons.prems have x: "x \<in> set xs" by simp
    with Cons.prems have "f a \<noteq> f x" by (metis distinct.simps(2) imageI list.simps(9) set_map)
    with Cons x show ?thesis by simp
  qed
qed

lemma store_inv_exclusive:
  assumes "store_inv s"
  shows "active_exclusive s"
proof (cases "activeBufferId s")
  case None
  with assms show ?thesis by (simp add: store_inv_def active_exclusive_def)
next
  case (Some a)
  with assms obtain b where b: "b \<in> set (buffers s)" "bid b = a"
    by (auto simp: store_inv_def)
  from assms Some have "filter isActive (buffers s) = filter (\<lambda>y. bid y = bid b) (buffers s)"
    using b(2) by (intro filter_cong) (auto simp: store_inv_def)
  also from assms b(1) have "\<dots> = [b]"
    by (simp add: store_inv_def filter_same_key_single)
  finally show ?thesis
    using b Some by (auto simp: active_exclusive_def)
qed

lemma store_inv_initial: "store_inv (initial K)"
  by (simp add: store_inv_def initial_def)

lemma store_inv_activate:
  assumes "distinct (map bid bs)"
    and "case a of None \<Rightarrow> bs = [] | Some i \<Rightarrow> i \<in> set (map bid bs)"
    and "buffers t = map (\<lambda>b. b\<lparr>isActive := (Some (bid b) = a)\<rparr>) bs"
    and "activeBufferId t = a"
  shows "store_inv t"
  using assms by (auto simp: store_inv_def comp_def split: option.splits)

lemma store_inv_setActiveBuffer:
  "store_inv s \<Longrightarrow> i \<in> set (map bid (buffers s)) \<Longrightarrow> store_inv (setActiveBuffer i s)"
  by (rule store_inv_activate[where bs = "buffers s" and a = "Some i"])
     (auto simp: store_inv_def setActiveBuffer_def)

lemma store_inv_handleTabClick:
  "store_inv s \<Longrightarrow> i \<in> set (map bid (buffers s)) \<Longrightarrow> store_inv (handleTabClick i s)"
  by (rule store_inv_activate[where bs = "buffers s" and a = "Some i"])
     (auto simp: store_inv_def handleTabClick_def)

lemma store_inv_switchTo:
  "store_inv s \<Longrightarrow> i \<in> set (map bid (buffers s)) \<Longrightarrow> store_inv (switchTo i s)"
  by (rule store_inv_activate[where bs = "buffers s" and a = "Some i"])
     (auto simp: store_inv_def switchTo_def)

lemma nat_mod_length_less:
  assumes "xs \<noteq> []"
  shows "nat (x mod int (length xs)) < length xs"
proof -
  from assms have p: "0 < int (length xs)" by simp
  then have "0 \<le> x mod int (length xs)" "x mod int (length xs) < int (length xs)"
    by (rule pos_mod_sign, rule pos_mod_bound)
  then show ?thesis by linarith
qed

lemma store_inv_switchToNextBuffer:
  assumes "store_inv s" shows "store_inv (switchToNextBuffer s)"
proof (cases "buffers s = []")
  case True
  with assms show ?thesis by (simp add: switchToNextBuffer_def)
next
  case False
  let ?n = "nat ((currentIndex s + 1) mod int (length (buffers s)))"
  from False have "?n < length (buffers s)" by (rule nat_mod_length_less)
  then have "bid (buffers s ! ?n) \<in> set (map bid (buffers s))" by simp
  with assms False show ?thesis
    by (simp add: switchToNextBuffer_def store_inv_switchTo del: set_map)
qed

lemma store_inv_switchToPreviousBuffer:
  assumes "store_inv s" shows "store_inv (switchToPreviousBuffer s)"
proof (cases "buffers s = []")
  case True
  with assms show ?thesis by (simp add: switchToPreviousBuffer_def)
next
  case False
  let ?n = "nat ((currentIndex s - 1 + int (length (buffers s))) mod int (length (buffers s)))"
  from False have "?n < length (buffers s)" by (rule nat_mod_length_less)
  then have "bid (buffers s ! ?n) \<in> set (map bid (buffers s))" by simp
  with assms False show ?thesis
    by (simp add: switchToPreviousBuffer_def store_inv_switchTo del: set_map)
qed

lemma store_inv_closeBufferForce:
  assumes "store_inv s" shows "store_inv (closeBufferForce K i s)"
proof (cases "findIndex (\<lambda>b. bid b = i) (buffers s)")
  case None
  with assms show ?thesis by (simp add: closeBufferForce_def)
next
  case (Some k)
  let ?nb = "filter (\<lambda>b. bid b \<noteq> i) (buffers s)"
  let ?a = "if activeBufferId s = Some i
            then (if ?nb \<noteq> [] then Some (bid (?nb ! min k (length ?nb - 1))) else None)
            else activeBufferId s"
  have d: "distinct (map bid ?nb)"
    using assms by (simp add: store_inv_def distinct_map_filter)
  have a: "case ?a of None \<Rightarrow> ?nb = [] | Some j \<Rightarrow> j \<in> set (map bid ?nb)"
  proof (cases "activeBufferId s = Some i")
    case True
    show ?thesis
    proof (cases "?nb = []")
      case True
      with \<open>activeBufferId s = Some i\<close> show ?thesis by simp
    next
      case False
      then have "0 < length ?nb" by simp
      then have "min k (length ?nb - 1) < length ?nb" by linarith
      then have "?nb ! min k (length ?nb - 1) \<in> set ?nb" by (rule nth_mem)
      then have "bid (?nb ! min k (length ?nb - 1)) \<in> set (map bid ?nb)" by (simp del: set_filter)
      with True False show ?thesis by simp
    qed
  next
    case False
    show ?thesis
    proof (cases "activeBufferId s")
      case None
      with assms show ?thesis by (simp add: store_inv_def)
    next
      case (Some j)
      with assms False show ?thesis by (auto simp: store_inv_def)
    qed
  qed
  show ?thesis
    by (rule store_inv_activate[OF d a]) (simp_all add: closeBufferForce_def Some Let_def)
qed

lemma store_inv_forceCloseAll:
  "store_inv s \<Longrightarrow> store_inv (forceCloseAll K bs s)"
  unfolding forceCloseAll_def
  by (induction bs arbitrary: s) (simp_all add: store_inv_closeBufferForce)

lemma store_inv_pendingClose_update [simp]:
  "store_inv (s\<lparr>pendingClose := pc\<rparr>) = store_inv s"
  by (simp add: store_inv_def cong: option.case_cong)

lemma store_inv_emitted_update [simp]:
  "store_inv (s\<lparr>emitted := x\<rparr>) = store_inv s"
  by (simp add: store_inv_def cong: option.case_cong)

lemma store_inv_closeBuffer:
  "store_inv s \<Longrightarrow> store_inv (closeBuffer K i s)"
  by (simp add: closeBuffer_def store_inv_closeBufferForce split: option.splits)

lemma store_inv_handleCloseOtherTabs:
  "store_inv s \<Longrightarrow> store_inv (handleCloseOtherTabs K i s)"
  by (simp add: handleCloseOtherTabs_def store_inv_forceCloseAll Let_def split: option.splits)

lemma store_inv_handleCloseAllTabs:
  "store_inv s \<Longrightarrow> store_inv (handleCloseAllTabs K s)"
  by (simp add: handleCloseAllTabs_def store_inv_forceCloseAll Let_def split: option.splits)

lemma store_inv_handleCloseTabsToRight:
  "store_inv s \<Longrightarrow> store_inv (handleCloseTabsToRight K i s)"
  by (simp add: handleCloseTabsToRight_def store_inv_forceCloseAll Let_def split: option.splits)

lemma store_inv_confirmCloseWithoutSaving:
  "store_inv s \<Longrightarrow> store_inv (confirmCloseWithoutSaving K s)"
  by (simp add: confirmCloseWithoutSaving_def store_inv_forceCloseAll store_inv_closeBufferForce
      Let_def split: option.splits close_type.splits)

lemma store_inv_closeBuffersBatch:
  assumes "store_inv s" shows "store_inv (closeBuffersBatch ids skip s)"
proof -
  let ?bs = "filter (\<lambda>b. bid b \<notin> set ids) (buffers s)"
  let ?t = "if (case activeBufferId s of None \<Rightarrow> [] | Some a \<Rightarrow> a) \<in> set ids
            then (case ?bs of
                    [] \<Rightarrow> s\<lparr>buffers := ?bs, activeBufferId := None\<rparr>
                  | b0 # rest \<Rightarrow>
                      s\<lparr>buffers := b0\<lparr>isActive := True\<rparr> # rest, activeBufferId := Some (bid b0)\<rparr>)
            else s\<lparr>buffers := ?bs\<rparr>"
  have d: "distinct (map bid ?bs)"
    using assms by (simp add: store_inv_def distinct_map_filter)
  have t: "store_inv ?t"
  proof (cases "(case activeBufferId s of None \<Rightarrow> [] | Some a \<Rightarrow> a) \<in> set ids")
    case True
    have inactive: "\<not> isActive b" if "b \<in> set ?bs" for b
    proof (cases "activeBufferId s")
      case None
      with assms have "buffers s = []" by (simp add: store_inv_def)
      with that show ?thesis by simp
    next
      case (Some a)
      with True have "a \<in> set ids" by simp
      with that have "bid b \<noteq> a" by auto
      with assms Some that show ?thesis by (auto simp: store_inv_def)
    qed
    show ?thesis
    proof (cases ?bs)
      case Nil
      with True show ?thesis by (simp add: store_inv_def)
    next
      case (Cons b0 rest)
      with d have dr: "bid b0 \<notin> set (map bid rest)" "distinct (map bid rest)" by simp_all
      from dr(1) have ne: "\<forall>c\<in>set rest. bid c \<noteq> bid b0" by (metis imageI set_map)
      from inactive Cons have "\<forall>c\<in>set rest. \<not> isActive c" by simp
      with True Cons dr ne show ?thesis by (auto simp: store_inv_def)
    qed
  next
    case False
    show ?thesis
    proof (cases "activeBufferId s")
      case None
      with assms show ?thesis by (simp add: store_inv_def False)
    next
      case (Some a)
      with False have "a \<notin> set ids" by simp
      with assms Some d False show ?thesis by (auto simp: store_inv_def)
    qed
  qed
  show ?thesis
    using assms t by (simp add: closeBuffersBatch_def Let_def)
qed

lemma store_inv_list_update:
  assumes inv: "store_inv s" and k: "k < length (buffers s)"
    and b: "bid b' = bid (buffers s ! k)" "isActive b' = isActive (buffers s ! k)"
  shows "store_inv (s\<lparr>buffers := (buffers s)[k := b']\<rparr>)"
proof -
  have m: "map bid ((buffers s)[k := b']) = map bid (buffers s)"
    using k b(1) by (simp add: map_update list_update_same_conv)
  have a: "isActive c = (Some (bid c) = activeBufferId s)" if "c \<in> set ((buffers s)[k := b'])" for c
  proof -
    from that have "c = b' \<or> c \<in> set (buffers s)"
      using set_update_subset_insert[of "buffers s" k b'] by auto
    moreover from inv k have "isActive (buffers s ! k) = (Some (bid (buffers s ! k)) = activeBufferId s)"
      by (simp add: store_inv_def)
    ultimately show ?thesis using inv b by (auto simp: store_inv_def)
  qed
  have e: "(buffers s)[k := b'] = [] \<longleftrightarrow> buffers s = []" by simp
  from inv have "case activeBufferId s of None \<Rightarrow> (buffers s)[k := b'] = []
      | Some a \<Rightarrow> a \<in> set (map bid ((buffers s)[k := b']))"
    unfolding m e by (simp add: store_inv_def)
  with inv a show ?thesis
    unfolding store_inv_def by (simp add: m cong: option.case_cong)
qed

lemma store_inv_updateFound:
  assumes "store_inv s" and "\<And>b. bid (f b) = bid b \<and> isActive (f b) = isActive b"
  shows "store_inv (s\<lparr>buffers := updateFound P f (buffers s)\<rparr>)"
proof (cases "findIndex P (buffers s)")
  case None
  with assms(1) show ?thesis by (simp add: updateFound_def)
next
  case (Some k)
  from findIndex_Some[OF Some] have "k < length (buffers s)" by simp
  from store_inv_list_update[OF assms(1) this, of "f (buffers s ! k)"] assms(2) Some
  show ?thesis by (simp add: updateFound_def)
qed

lemma store_inv_updateBufferContent:
  "store_inv s \<Longrightarrow> store_inv (updateBufferContent i c md dd s)"
  unfolding updateBufferContent_def
  by (auto split: option.splits if_splits intro!: store_inv_updateFound simp: Let_def)

lemma store_inv_updateBufferTokens:
  "store_inv s \<Longrightarrow> store_inv (updateBufferTokens i ts s)"
  unfolding updateBufferTokens_def by (rule store_inv_updateFound) simp_all

lemma store_inv_markBufferDirty:
  "store_inv s \<Longrightarrow> store_inv (markBufferDirty i d s)"
  unfolding markBufferDirty_def by (rule store_inv_updateFound) simp_all

lemma store_inv_handleTabPin:
  "store_inv s \<Longrightarrow> store_inv (handleTabPin i s)"
  using store_inv_updateFound[of s "\<lambda>b. b\<lparr>isPinned := \<not> isPinned b\<rparr>" "\<lambda>b. bid b = i"]
  by (simp add: handleTabPin_def Let_def)

lemma store_inv_updateBuffer:
  assumes "store_inv s" and "well_addressed (UpdateBuffer ub) s"
  shows "store_inv (updateBuffer ub s)"
proof (cases "findIndex (\<lambda>b. bid b = bid ub) (buffers s)")
  case None
  with assms(1) show ?thesis by (simp add: updateBuffer_def)
next
  case (Some k)
  from findIndex_Some[OF Some] have k: "k < length (buffers s)" "bid ub = bid (buffers s ! k)"
    by simp_all
  from assms(2) Some have "isActive ub = isActive (buffers s ! k)"
    by (simp add: find_findIndex)
  from store_inv_list_update[OF assms(1) k(1) k(2) this] Some
  show ?thesis by (simp add: updateBuffer_def)
qed

lemma store_inv_permuted:
  assumes "store_inv s" and "mset bs = mset (buffers s)"
  shows "store_inv (s\<lparr>buffers := bs\<rparr>)"
proof -
  from assms(2) have m: "mset (map bid bs) = mset (map bid (buffers s))" by simp
  from assms(2) have st: "set bs = set (buffers s)" by (rule mset_eq_setD)
  from m have d: "distinct (map bid bs) = distinct (map bid (buffers s))"
    by (rule mset_eq_imp_distinct_iff)
  from st have e: "bs = [] \<longleftrightarrow> buffers s = []" by (metis set_empty)
  from assms(1) show ?thesis
    unfolding store_inv_def by (simp add: d st e cong: option.case_cong)
qed

lemma store_inv_reorderBuffers:
  assumes "store_inv s" and "reorderBuffers a b s = Inr t"
  shows "store_inv t"
proof -
  let ?st = "spliceIndex a (length (buffers s))"
  let ?rest = "take ?st (buffers s) @ drop (Suc ?st) (buffers s)"
  let ?en = "spliceIndex b (length ?rest)"
  let ?bs = "take ?en ?rest @ [buffers s ! ?st] @ drop ?en ?rest"
  from assms(2) have lt: "?st < length (buffers s)"
    and t: "t = s\<lparr>buffers := ?bs, emitted := emitted s @ [SaveSession ?bs (activeBufferId s)]\<rparr>"
    by (auto simp: reorderBuffers_def Let_def split: if_splits)
  have "mset ?bs = add_mset (buffers s ! ?st) (mset (take ?en ?rest) + mset (drop ?en ?rest))"
    by simp
  also have "mset (take ?en ?rest) + mset (drop ?en ?rest) = mset ?rest"
    by (metis append_take_drop_id mset_append)
  also have "add_mset (buffers s ! ?st) (mset ?rest) = mset (buffers s)"
    using id_take_nth_drop[OF lt] by (metis mset.simps(2) mset_append union_mset_add_mset_right)
  finally have "mset ?bs = mset (buffers s)" .
  from store_inv_permuted[OF assms(1) this] show ?thesis
    by (simp add: t)
qed

lemma evictLru_sub:
  assumes "evictLru bs m = Inr nb"
  shows "set nb \<subseteq> set bs \<and> (distinct (map bid bs) \<longrightarrow> distinct (map bid nb))"
  using assms by (auto simp: evictLru_def distinct_map_filter split: if_splits list.splits)

lemma store_inv_openBuffer:
  assumes inv: "store_inv s"
    and w: "well_addressed (OpenBuffer env p nm c isImg isSql isDf isVirt dd) s"
    and o: "openBuffer env p nm c isImg isSql isDf isVirt dd s = Inr (i, t)"
  shows "store_inv t"
proof (cases "find (\<lambda>b. path b = p) (buffers s)")
  case (Some e)
  then have "e \<in> set (buffers s)" by (auto simp: find_Some_iff)
  then have m: "bid e \<in> set (map bid (buffers s))" by simp
  from openBuffer_existing[OF Some, of env nm c isImg isSql isDf isVirt dd] o
  have t: "t = s\<lparr>activeBufferId := Some (bid e),
                 buffers := map (\<lambda>b. b\<lparr>isActive := (bid b = bid e)\<rparr>) (buffers s)\<rparr>"
    by simp
  show ?thesis
    by (rule store_inv_activate[where bs = "buffers s" and a = "Some (bid e)"])
       (use inv m in \<open>auto simp: store_inv_def t\<close>)
next
  case None
  from openBuffer_new_buffers[OF None o] obtain nb nw where
    ev: "evictLru (buffers s) (maxOpenTabs s) = Inr nb"
    and i: "i = generateBufferId p (now env)"
    and a: "activeBufferId t = Some i"
    and bs: "buffers t = map (\<lambda>b. b\<lparr>isActive := False\<rparr>) nb @ [nw]"
    and nw: "bid nw = i" "isActive nw"
    by auto
  from w None i have fresh: "i \<notin> set (map bid (buffers s))" by simp
  from evictLru_sub[OF ev] inv have sub: "set nb \<subseteq> set (buffers s)" and d: "distinct (map bid nb)"
    by (simp_all add: store_inv_def)
  from fresh sub have f: "\<forall>b\<in>set nb. bid b \<noteq> i" by auto
  from d f nw a show ?thesis
    by (auto simp: store_inv_def bs comp_def)
qed

lemma store_inv_exec:
  assumes "store_inv s" and "well_addressed a s" and "exec K a s = Inr t"
  shows "store_inv t"
proof (cases a)
  case (OpenBuffer env p nm c isImg isSql isDf isVirt dd)
  with assms(3) obtain i where o: "openBuffer env p nm c isImg isSql isDf isVirt dd s = Inr (i, t)"
    by (auto split: sum.splits)
  from assms(2) OpenBuffer
  have "well_addressed (OpenBuffer env p nm c isImg isSql isDf isVirt dd) s" by simp
  from store_inv_openBuffer[OF assms(1) this o] show ?thesis .
next
  case (UpdateBuffer b)
  with assms show ?thesis by (auto intro: store_inv_updateBuffer)
next
  case (ReorderBuffers x y)
  with assms show ?thesis by (auto intro: store_inv_reorderBuffers)
next
  case (SetActiveBuffer i)
  with assms show ?thesis by (auto intro: store_inv_setActiveBuffer)
next
  case (HandleTabClick i)
  with assms show ?thesis by (auto intro: store_inv_handleTabClick)
next
  case ReopenClosedTabBegin
  with assms show ?thesis
    by (auto simp: reopenClosedTab_begin_def store_inv_def split: list.splits cong: option.case_cong)
next
  case (SetMaxOpenTabs m)
  with assms show ?thesis
    by (auto simp: setMaxOpenTabs_def store_inv_def cong: option.case_cong)
qed (use assms in \<open>auto simp: store_inv_closeBuffer store_inv_closeBufferForce
      store_inv_closeBuffersBatch store_inv_updateBufferContent store_inv_updateBufferTokens
      store_inv_markBufferDirty handleTabClose_def store_inv_handleTabPin
      store_inv_handleCloseOtherTabs store_inv_handleCloseAllTabs
      store_inv_handleCloseTabsToRight store_inv_switchToNextBuffer
      store_inv_switchToPreviousBuffer setPendingClose_def cancelPendingClose_def
      store_inv_confirmCloseWithoutSaving\<close>)

lemma store_inv_run:
  "store_inv s \<Longrightarrow> well_addressed_run K as s \<Longrightarrow> run K as s = Inr t \<Longrightarrow> store_inv t"
proof (induction as arbitrary: s)
  case Nil
  then show ?case by simp
next
  case (Cons a as)
  from Cons.prems(3) obtain s1 where e: "exec K a s = Inr s1" and r: "run K as s1 = Inr t"
    by (auto split: sum.splits)
  from Cons.prems(2) e have w: "well_addressed a s" "well_addressed_run K as s1" by simp_all
  from store_inv_exec[OF Cons.prems(1) w(1) e] have "store_inv s1" .
  from Cons.IH[OF this w(2) r] show ?case .
qed

text \<open>
  C1, as amended. In every state reached from the empty initial state by a run of the
  store's actions in which every activation (\<open>setActiveBuffer\<close>, \<open>handleTabClick\<close>)
  names an open buffer, every buffer written back by \<open>updateBuffer\<close> has the active
  flag of the buffer it replaces, and every id generated for a new buffer is not in
  use: if the buffer list is not empty, exactly one buffer is flagged active and the
  active id is its id, and if it is empty, the active id is null.
\<close>

theorem active_exclusive_reachable:
  assumes "well_addressed_run K as (initial K)" and "run K as (initial K) = Inr s"
  shows "active_exclusive s"
  using store_inv_run[OF store_inv_initial assms] by (rule store_inv_exclusive)

theorem active_exclusive_reachable_witness:
  "well_addressed_run example_K
     [OpenBuffer (example_env 5) ''/x.rs'' ''x.rs'' ''fn'' False False False False None,
      OpenBuffer (example_env 6) ''/y.rs'' ''y.rs'' ''mod'' False False False False None,
      SetActiveBuffer ''buffer__x_rs_5'',
      CloseBuffer ''buffer__y_rs_6'']
     (initial example_K) \<and>
   (case run example_K
     [OpenBuffer (example_env 5) ''/x.rs'' ''x.rs'' ''fn'' False False False False None,
      OpenBuffer (example_env 6) ''/y.rs'' ''y.rs'' ''mod'' False False False False None,
      SetActiveBuffer ''buffer__x_rs_5'',
      CloseBuffer ''buffer__y_rs_6'']
     (initial example_K) of
      Inl e \<Rightarrow> False
    | Inr s \<Rightarrow>
        active_exclusive s \<and> map path (buffers s) = [''/x.rs''] \<and>
        activeBufferId s = Some ''buffer__x_rs_5'')"
proof -
  let ?as = "[OpenBuffer (example_env 5) ''/x.rs'' ''x.rs'' ''fn'' False False False False None,
      OpenBuffer (example_env 6) ''/y.rs'' ''y.rs'' ''mod'' False False False False None,
      SetActiveBuffer ''buffer__x_rs_5'',
      CloseBuffer ''buffer__y_rs_6'']"
  have w: "well_addressed_run example_K ?as (initial example_K)"
    by (simp add: openBuffer_def evictLru_def setActiveBuffer_def initial_def example_K_def
        example_env_def generateBufferId_def isAlnum_def show_nat.simps Let_def)
  have "\<exists>s. run example_K ?as (initial example_K) = Inr s \<and> map path (buffers s) = [''/x.rs''] \<and>
          activeBufferId s = Some ''buffer__x_rs_5''"
    by (simp add: openBuffer_def evictLru_def setActiveBuffer_def closeBuffer_def
        closeBufferForce_def initial_def example_K_def
        example_env_def generateBufferId_def isAlnum_def show_nat.simps Let_def)
  then obtain s where r: "run example_K ?as (initial example_K) = Inr s"
    and p: "map path (buffers s) = [''/x.rs'']" "activeBufferId s = Some ''buffer__x_rs_5''"
    by (elim exE conjE)
  from active_exclusive_reachable[OF w r] have "active_exclusive s" .
  with w r p show ?thesis by simp
qed

text \<open>
  Without the provisos exclusivity fails. \<open>setActiveBuffer\<close> (and \<open>handleTabClick\<close>)
  store whatever id they are given: after an id that names no buffer, one buffer is
  open, none is flagged active, and the active id is that id.
\<close>

theorem active_exclusive_unknown_id:
  "(case run example_K
          [OpenBuffer (example_env 5) ''/x.rs'' ''x.rs'' ''fn'' False False False False None,
           SetActiveBuffer ''ghost'']
          (initial example_K) of
      Inl e \<Rightarrow> False
    | Inr s \<Rightarrow>
        \<not> active_exclusive s \<and> map path (buffers s) = [''/x.rs''] \<and>
        filter isActive (buffers s) = [] \<and> activeBufferId s = Some ''ghost'')"
  by (simp add: openBuffer_def evictLru_def setActiveBuffer_def initial_def example_K_def
      example_env_def generateBufferId_def isAlnum_def show_nat.simps Let_def
      active_exclusive_def)

text \<open>The same on the empty store: no buffer, and an active id that is not null.\<close>

lemma active_exclusive_unknown_id_empty:
  "(case run example_K [HandleTabClick ''ghost''] (initial example_K) of
      Inl e \<Rightarrow> False
    | Inr s \<Rightarrow> \<not> active_exclusive s \<and> buffers s = [] \<and> activeBufferId s = Some ''ghost'')"
  by (simp add: handleTabClick_def initial_def active_exclusive_def)

text \<open>
  \<open>updateBuffer\<close> stores the buffer it is given, active flag included: two buffers
  are flagged active afterwards.
\<close>

lemma active_exclusive_updateBuffer_flag:
  "(case run example_K
          [OpenBuffer (example_env 5) ''/x.rs'' ''x.rs'' ''fn'' False False False False None,
           OpenBuffer (example_env 6) ''/y.rs'' ''y.rs'' ''mod'' False False False False None,
           UpdateBuffer ((example_buffer ''buffer__x_rs_5'' ''/x.rs'' ''fn'')\<lparr>isActive := True\<rparr>)]
          (initial example_K) of
      Inl e \<Rightarrow> False
    | Inr s \<Rightarrow> \<not> active_exclusive s \<and> map isActive (buffers s) = [True, True])"
  by (simp add: openBuffer_def evictLru_def updateBuffer_def initial_def example_K_def
      example_env_def example_buffer_def generateBufferId_def isAlnum_def show_nat.simps Let_def
      active_exclusive_def)

text \<open>
  Two paths that differ only in characters outside \<open>[a-zA-Z0-9]\<close>, opened within
  the same millisecond, share an id; focusing one of them flags both active.
\<close>

lemma active_exclusive_shared_id:
  "(case run example_K
          [OpenBuffer (example_env 7) ''/a.b'' ''a.b'' ''x'' False False False False None,
           OpenBuffer (example_env 7) ''/a_b'' ''a_b'' ''y'' False False False False None,
           OpenBuffer (example_env 8) ''/a.b'' ''a.b'' ''x'' False False False False None]
          (initial example_K) of
      Inl e \<Rightarrow> False
    | Inr s \<Rightarrow> \<not> active_exclusive s \<and> map isActive (buffers s) = [True, True] \<and>
        map bid (buffers s) = [''buffer__a_b_7'', ''buffer__a_b_7''])"
  by (simp add: openBuffer_def evictLru_def initial_def example_K_def
      example_env_def generateBufferId_def isAlnum_def show_nat.simps Let_def
      active_exclusive_def)

text \<open>
  \<open>reorderBuffers\<close> with a start index that selects no element stores \<open>undefined\<close>
  in the list; such a run leaves the states that the model covers.
\<close>

lemma reorderBuffers_out_of_range:
  "run example_K
     [OpenBuffer (example_env 5) ''/x.rs'' ''x.rs'' ''fn'' False False False False None,
      ReorderBuffers 1 0]
     (initial example_K) = Inl UndefinedElement"
  by (simp add: openBuffer_def evictLru_def reorderBuffers_def spliceIndex_def initial_def
      example_K_def example_env_def Let_def)

end
